theory Spec2Isabelle
  imports Complex_Main
begin

section \<open>Strings\<close>

text \<open>
  A JavaScript string is a sequence of UTF-16 code units. The model covers the strings
  whose code units are below 256: a \<open>char\<close> is one such code unit, so that the first
  half is ASCII and the second half is the Latin-1 supplement. The character classes and
  the case mappings below are the ECMAScript ones restricted to that range.
\<close>

definition code :: "char \<Rightarrow> nat" where
  "code c = of_char c"

text \<open>\<open>toLowerCase\<close> and \<open>toUpperCase\<close> on one code unit: the letters A-Z and the
  Latin-1 capitals U+00C0-U+00DE (without the multiplication sign U+00D7) have a lower
  case 32 code points up; sharp s, micro sign and y with diaeresis have no upper case
  below 256 that is a single code unit.\<close>

definition isUpperCase :: "char \<Rightarrow> bool" where
  "isUpperCase c =
     ((65 \<le> code c \<and> code c \<le> 90) \<or> (192 \<le> code c \<and> code c \<le> 222 \<and> code c \<noteq> 215))"

definition isLowerCase :: "char \<Rightarrow> bool" where
  "isLowerCase c =
     ((97 \<le> code c \<and> code c \<le> 122) \<or> (224 \<le> code c \<and> code c \<le> 254 \<and> code c \<noteq> 247))"

fun setBit5 :: "bool \<Rightarrow> char \<Rightarrow> char" where
  "setBit5 b (Char b0 b1 b2 b3 b4 b5 b6 b7) = Char b0 b1 b2 b3 b4 b b6 b7"

definition toLowerChar :: "char \<Rightarrow> char" where
  "toLowerChar c = (if isUpperCase c then setBit5 True c else c)"

definition toUpperChar :: "char \<Rightarrow> char" where
  "toUpperChar c = (if isLowerCase c then setBit5 False c else c)"

definition toLowerCase :: "string \<Rightarrow> string" where
  "toLowerCase s = map toLowerChar s"

text \<open>\<open>String.prototype.includes\<close>: the needle occurs at some position.\<close>

fun includes_str :: "string \<Rightarrow> string \<Rightarrow> bool" where
  "includes_str [] k = (k = [])"
| "includes_str (c # s) k = (take (length k) (c # s) = k \<or> includes_str s k)"

text \<open>White space in the sense of \<open>\s\<close> and of \<open>trim\<close> (WhiteSpace and LineTerminator):
  tab, line feed, vertical tab, form feed, carriage return, space, no-break space.\<close>

definition isSpace :: "char \<Rightarrow> bool" where
  "isSpace c = (code c \<in> {9, 10, 11, 12, 13, 32, 160})"

definition isDigit :: "char \<Rightarrow> bool" where
  "isDigit c = (48 \<le> code c \<and> code c \<le> 57)"

definition isWord :: "char \<Rightarrow> bool" where
  "isWord c = ((97 \<le> code c \<and> code c \<le> 122) \<or> (65 \<le> code c \<and> code c \<le> 90)
                \<or> isDigit c \<or> c = CHR ''_'')"

definition isLineTerminator :: "char \<Rightarrow> bool" where
  "isLineTerminator c = (code c = 10 \<or> code c = 13)"

definition trim :: "string \<Rightarrow> string" where
  "trim s = rev (dropWhile isSpace (rev (dropWhile isSpace s)))"

section \<open>Regular expressions\<close>

text \<open>
  The fragment of ECMAScript regular expressions that the patterns of
  \<open>extractBillingData\<close> use: literal text, a character class under a quantifier (greedy
  or lazy), sequence, alternation, one capturing group and the line-start assertion.
  Matching is backtracking; \<open>run\<close> lists the ways a pattern can match at a position, in
  the order in which the backtracking matcher tries them, so its first element is the
  match that the matcher returns.
\<close>

datatype cclass = Chars "char \<Rightarrow> bool" | NotChars "char \<Rightarrow> bool"

datatype regex =
    Lit string
  | Rep cclass nat "nat option" bool
  | Seq regex regex
  | Alt regex regex
  | Group regex
  | Bol

record flags =
  ignoreCase :: bool
  multiline :: bool

record mstate =
  seen :: string
  rest :: string
  capture :: "string option"

text \<open>Under flag \<open>i\<close> two characters are equal when their canonical (upper case) forms
  are, and a character is in a set when some member has its canonical form.\<close>

definition sameChar :: "flags \<Rightarrow> char \<Rightarrow> char \<Rightarrow> bool" where
  "sameChar fl p c = (if ignoreCase fl then toUpperChar p = toUpperChar c else p = c)"

definition found :: "flags \<Rightarrow> (char \<Rightarrow> bool) \<Rightarrow> char \<Rightarrow> bool" where
  "found fl p c = (if ignoreCase fl then p c \<or> p (toUpperChar c) \<or> p (toLowerChar c) else p c)"

fun inClass :: "flags \<Rightarrow> cclass \<Rightarrow> char \<Rightarrow> bool" where
  "inClass fl (Chars p) c = found fl p c"
| "inClass fl (NotChars p) c = (\<not> found fl p c)"

definition advance :: "nat \<Rightarrow> mstate \<Rightarrow> mstate" where
  "advance k st = st\<lparr>seen := rev (take k (rest st)) @ seen st, rest := drop k (rest st)\<rparr>"

definition consumed :: "mstate \<Rightarrow> mstate \<Rightarrow> string" where
  "consumed st st' = take (length (rest st) - length (rest st')) (rest st)"

definition atLineStart :: "flags \<Rightarrow> mstate \<Rightarrow> bool" where
  "atLineStart fl st =
     (case seen st of [] \<Rightarrow> True | c # _ \<Rightarrow> multiline fl \<and> isLineTerminator c)"

definition counts :: "nat \<Rightarrow> nat option \<Rightarrow> bool \<Rightarrow> nat \<Rightarrow> nat list" where
  "counts lo hi greedy n =
     (let mx = (case hi of None \<Rightarrow> n | Some h \<Rightarrow> min h n);
          ks = (if lo \<le> mx then [lo..<Suc mx] else [])
      in if greedy then rev ks else ks)"

fun run :: "flags \<Rightarrow> regex \<Rightarrow> mstate \<Rightarrow> mstate list" where
  "run fl (Lit w) st =
     (if length w \<le> length (rest st) \<and> list_all2 (sameChar fl) w (take (length w) (rest st))
      then [advance (length w) st] else [])"
| "run fl (Rep cls lo hi greedy) st =
     map (\<lambda>k. advance k st)
       (counts lo hi greedy (length (takeWhile (inClass fl cls) (rest st))))"
| "run fl (Seq a b) st = concat (map (run fl b) (run fl a st))"
| "run fl (Alt a b) st = run fl a st @ run fl b st"
| "run fl (Group a) st = map (\<lambda>st'. st'\<lparr>capture := Some (consumed st st')\<rparr>) (run fl a st)"
| "run fl Bol st = (if atLineStart fl st then [st] else [])"

text \<open>\<open>text.match(pattern)\<close> for a pattern without flag \<open>g\<close>: the first position, from the
  left, at which the pattern matches; the result holds the matched text and group 1
  (\<open>None\<close> where JavaScript has \<open>null\<close> for the match, or \<open>undefined\<close> for the group).\<close>

fun execFrom :: "flags \<Rightarrow> regex \<Rightarrow> string \<Rightarrow> string \<Rightarrow> (string \<times> string option) option" where
  "execFrom fl r bef [] =
     (case run fl r \<lparr>seen = bef, rest = [], capture = None\<rparr> of
        [] \<Rightarrow> None
      | st # _ \<Rightarrow> Some ([], capture st))"
| "execFrom fl r bef (c # cs) =
     (case run fl r \<lparr>seen = bef, rest = c # cs, capture = None\<rparr> of
        [] \<Rightarrow> execFrom fl r (c # bef) cs
      | st # _ \<Rightarrow> Some (consumed \<lparr>seen = bef, rest = c # cs, capture = None\<rparr> st, capture st))"

definition match :: "string \<Rightarrow> flags \<times> regex \<Rightarrow> (string \<times> string option) option" where
  "match text p = execFrom (fst p) (snd p) [] text"

section \<open>Values\<close>

text \<open>A thrown value: an \<open>Error\<close> object with its name and message, or any other value,
  kept as the text that \<open>String(error)\<close> gives for it.\<close>

datatype thrown = ErrorObject string string | ThrownValue string

text \<open>\<open>error instanceof Error ? error.message : String(error)\<close>\<close>

fun errorText :: "thrown \<Rightarrow> string" where
  "errorText (ErrorObject name message) = message"
| "errorText (ThrownValue s) = s"

text \<open>The value that \<open>response.json()\<close> resolves to.\<close>

datatype json =
    JNull
  | JBool bool
  | JNumber rat
  | JString string
  | JArray "json list"
  | JObject "(string \<times> json) list"

text \<open>Reading a property that no prototype defines (\<open>text\<close>, \<open>json\<close>): on \<open>null\<close> it
  throws a TypeError, on an object it is the object's own property, and on every other
  value it is \<open>undefined\<close> (\<open>None\<close>). The messages of the TypeErrors are those of V8.\<close>

fun member :: "json \<Rightarrow> string \<Rightarrow> thrown + json option" where
  "member JNull k =
     Inl (ErrorObject ''TypeError'' (''Cannot read properties of null (reading '' @ [CHR 0x27] @ k @ [CHR 0x27] @ '')''))"
| "member (JObject kvs) k = Inr (map_of kvs k)"
| "member v k = Inr None"

fun truthy :: "json option \<Rightarrow> bool" where
  "truthy None = False"
| "truthy (Some JNull) = False"
| "truthy (Some (JBool b)) = b"
| "truthy (Some (JNumber n)) = (n \<noteq> 0)"
| "truthy (Some (JString s)) = (s \<noteq> [])"
| "truthy (Some (JArray xs)) = True"
| "truthy (Some (JObject kvs)) = True"

text \<open>\<open>v || d\<close>\<close>

definition orElse :: "json option \<Rightarrow> json \<Rightarrow> json" where
  "orElse v d = (if truthy v then (case v of Some x \<Rightarrow> x | None \<Rightarrow> d) else d)"

text \<open>A field of the extracted data: \<open>undefined\<close>, a string or a number. The numbers are
  those that \<open>parseFloat\<close> returns, of a type \<open>'n\<close> that is left open, and
  \<open>parseFloat\<close> is a parameter of the model.\<close>

datatype 'n val = Undefined | Str string | Num 'n

text \<open>An object literal: its properties in the order in which they are written.\<close>

type_synonym 'n object = "(string \<times> 'n val) list"

text \<open>\<open>obj.k\<close> on such an object\<close>

definition getProp :: "'n object \<Rightarrow> string \<Rightarrow> 'n val" where
  "getProp obj k = (case map_of obj k of None \<Rightarrow> Undefined | Some v \<Rightarrow> v)"

section \<open>extractBillingData\<close>

definition flagsI :: flags where
  "flagsI = \<lparr>ignoreCase = True, multiline = False\<rparr>"

definition flagsNone :: flags where
  "flagsNone = \<lparr>ignoreCase = False, multiline = False\<rparr>"

definition flagsIM :: flags where
  "flagsIM = \<lparr>ignoreCase = True, multiline = True\<rparr>"

definition oneOf :: "string \<Rightarrow> cclass" where
  "oneOf cs = Chars (\<lambda>c. c \<in> set cs)"

text \<open>\<open>x*\<close>, \<open>x+\<close>, \<open>x?\<close>, \<open>x{m,n}\<close> (greedy) and \<open>x*?\<close> (lazy)\<close>

definition star :: "cclass \<Rightarrow> regex" where
  "star cls = Rep cls 0 None True"

definition plus_re :: "cclass \<Rightarrow> regex" where
  "plus_re cls = Rep cls 1 None True"

definition opt :: "cclass \<Rightarrow> regex" where
  "opt cls = Rep cls 0 (Some 1) True"

definition between :: "cclass \<Rightarrow> nat \<Rightarrow> nat \<Rightarrow> regex" where
  "between cls m n = Rep cls m (Some n) True"

definition lazyStar :: "cclass \<Rightarrow> regex" where
  "lazyStar cls = Rep cls 0 None False"

definition seqs :: "regex list \<Rightarrow> regex" where
  "seqs rs = foldr Seq (butlast rs) (last rs)"

text \<open>\<open>[:\s]\<close>\<close>

definition colonOrSpace :: cclass where
  "colonOrSpace = Chars (\<lambda>c. c = CHR '':'' \<or> isSpace c)"

text \<open>\<open>(\d+\.?\d*)\<close>\<close>

definition amountGroup :: regex where
  "amountGroup = Group (seqs [plus_re (Chars isDigit), opt (oneOf ''.''), star (Chars isDigit)])"

text \<open>
  \<^verbatim>\<open>/total[:\s]*\$?(\d+\.?\d*)/i\<close>,
  \<^verbatim>\<open>/amount[:\s]*\$?(\d+\.?\d*)/i\<close>,
  \<^verbatim>\<open>/\$(\d+\.?\d*)/\<close>
\<close>

definition amountPatterns :: "(flags \<times> regex) list" where
  "amountPatterns =
     [(flagsI, seqs [Lit ''total'', star colonOrSpace, opt (oneOf ''$''), amountGroup]),
      (flagsI, seqs [Lit ''amount'', star colonOrSpace, opt (oneOf ''$''), amountGroup]),
      (flagsNone, seqs [Lit ''$'', amountGroup])]"

text \<open>\<^verbatim>\<open>/due[:\s]*(\d{1,2}[\/\-]\d{1,2}[\/\-]\d{2,4})/i\<close>\<close>

definition dueDatePattern :: "flags \<times> regex" where
  "dueDatePattern =
     (flagsI, seqs [Lit ''due'', star colonOrSpace,
        Group (seqs [between (Chars isDigit) 1 2, between (oneOf ''/-'') 1 1,
                     between (Chars isDigit) 1 2, between (oneOf ''/-'') 1 1,
                     between (Chars isDigit) 2 4])])"

text \<open>\<^verbatim>\<open>/invoice[:\s]*(#?\w+)/i\<close>\<close>

definition invoicePattern :: "flags \<times> regex" where
  "invoicePattern =
     (flagsI, seqs [Lit ''invoice'', star colonOrSpace,
        Group (seqs [opt (oneOf ''#''), plus_re (Chars isWord)])])"

text \<open>\<^verbatim>\<open>/^([^\n]*?)(?:invoice|bill)/im\<close>\<close>

definition vendorPattern :: "flags \<times> regex" where
  "vendorPattern =
     (flagsIM, seqs [Bol, Group (lazyStar (NotChars (\<lambda>c. c = CHR 0x0A))),
        Alt (Lit ''invoice'') (Lit ''bill'')])"

text \<open>\<open>match[1]\<close> as an argument of \<open>parseFloat\<close>, which converts it to a string.\<close>

definition toString :: "string option \<Rightarrow> string" where
  "toString g = (case g of None \<Rightarrow> ''undefined'' | Some s \<Rightarrow> s)"

text \<open>The loop over \<open>amountPatterns\<close>: the first pattern that matches gives the amount.\<close>

fun totalAmountOf :: "(string \<Rightarrow> 'n) \<Rightarrow> string \<Rightarrow> (flags \<times> regex) list \<Rightarrow> 'n val" where
  "totalAmountOf parseFloat text [] = Undefined"
| "totalAmountOf parseFloat text (pattern # patterns) =
     (case match text pattern of
        Some m \<Rightarrow> Num (parseFloat (toString (snd m)))
      | None \<Rightarrow> totalAmountOf parseFloat text patterns)"

text \<open>\<open>m ? m[1] : undefined\<close>\<close>

definition group1 :: "(string \<times> string option) option \<Rightarrow> 'n val" where
  "group1 m = (case m of None \<Rightarrow> Undefined
               | Some r \<Rightarrow> (case snd r of None \<Rightarrow> Undefined | Some s \<Rightarrow> Str s))"

text \<open>\<open>vendorMatch ? vendorMatch[1].trim() : undefined\<close>; \<open>trim\<close> on \<open>undefined\<close>
  throws.\<close>

definition vendorOf :: "(string \<times> string option) option \<Rightarrow> thrown + 'n val" where
  "vendorOf m = (case m of None \<Rightarrow> Inr Undefined
     | Some r \<Rightarrow> (case snd r of
          None \<Rightarrow> Inl (ErrorObject ''TypeError''
                    (''Cannot read properties of undefined (reading '' @ [CHR 0x27] @ ''trim'' @ [CHR 0x27] @ '')''))
        | Some s \<Rightarrow> Inr (Str (trim s))))"

definition documentTypeOf :: "string \<Rightarrow> 'n val" where
  "documentTypeOf text =
     (if includes_str (toLowerCase text) ''phone'' \<or> includes_str (toLowerCase text) ''telecom''
      then Str ''phone_bill''
      else if includes_str (toLowerCase text) ''legal'' \<or> includes_str (toLowerCase text) ''attorney''
      then Str ''legal_invoice''
      else if includes_str (toLowerCase text) ''invoice''
      then Str ''invoice''
      else Undefined)"

text \<open>
  \<open>ocrResult\<close> has the type \<open>any\<close>: it is the parsed body of the response. A text that
  is not a string, and is not replaced by \<open>""\<close> either, has no method \<open>match\<close>.
\<close>

definition extractBillingData :: "(string \<Rightarrow> 'n) \<Rightarrow> json \<Rightarrow> thrown + 'n object" where
  "extractBillingData parseFloat ocrResult =
     (case member ocrResult ''text'' of
        Inl e \<Rightarrow> Inl e
      | Inr t \<Rightarrow>
         (case member ocrResult ''json'' of
            Inl e \<Rightarrow> Inl e
          | Inr j \<Rightarrow>
             (let json = orElse j (JObject []) in
              case orElse t (JString []) of
                JString text \<Rightarrow>
                  (let totalAmount = totalAmountOf parseFloat text amountPatterns;
                       dueDate = group1 (match text dueDatePattern);
                       invoiceNumber = group1 (match text invoicePattern)
                   in case vendorOf (match text vendorPattern) of
                        Inl e \<Rightarrow> Inl e
                      | Inr vendor \<Rightarrow>
                          (let documentType = documentTypeOf text
                           in Inr [(''documentType'', documentType),
                                   (''totalAmount'', totalAmount),
                                   (''dueDate'', dueDate),
                                   (''vendor'', vendor),
                                   (''invoiceNumber'', invoiceNumber)]))
              | _ \<Rightarrow> Inl (ErrorObject ''TypeError'' ''text.match is not a function''))))"

section \<open>Messages, attachments and results\<close>

text \<open>Of \<open>Attachment\<close> and \<open>ParsedMessage\<close>, which the module imports, the fields that
  it reads.\<close>

record attachment =
  attachmentId :: string
  filename :: string
  mimeType :: string

record parsedMessage =
  id_msg :: string
  subject :: string
  headers_from :: string
  attachments :: "attachment list option"

record 'n MistralOCRResult =
  ocrAttachmentId :: string
  ocrFilename :: string
  success :: bool
  ocrText :: "json option"
  extractedData :: "'n object option"
  error :: "string option"

record 'n enrichedAttachment = attachment +
  ocrResult :: "'n MistralOCRResult option"

record 'n enrichedMessage = parsedMessage +
  enrichedAttachments :: "'n enrichedAttachment list option"

text \<open>\<open>{...attachment, ocrResult}\<close>, an attachment as it is where an
  \<open>EnrichedAttachment\<close> is expected, and the same for a message.\<close>

definition withOcrResult :: "attachment \<Rightarrow> 'n MistralOCRResult \<Rightarrow> 'n enrichedAttachment" where
  "withOcrResult a r = attachment.extend a (enrichedAttachment.fields (Some r))"

definition asIs :: "attachment \<Rightarrow> 'n enrichedAttachment" where
  "asIs a = attachment.extend a (enrichedAttachment.fields None)"

definition withEnrichedAttachments ::
  "parsedMessage \<Rightarrow> 'n enrichedAttachment list \<Rightarrow> 'n enrichedMessage" where
  "withEnrichedAttachments m es = parsedMessage.extend m (enrichedMessage.fields (Some es))"

definition unchanged :: "parsedMessage \<Rightarrow> 'n enrichedMessage" where
  "unchanged m = parsedMessage.extend m (enrichedMessage.fields None)"

section \<open>The environment\<close>

text \<open>
  The calls that leave the module are recorded in a trace, in the order in which they
  are made. The email provider and the OCR service answer a call as a function of the
  calls made so far, so that they may answer the same request differently each time.
  An answer is a value or a rejection (\<open>Inl\<close>).
\<close>

record attachmentData =
  data :: string
  size :: nat

record request =
  url :: string
  httpMethod :: string
  authorization :: string
  fileName :: string
  fileData :: string
  model :: string
  include_json :: string

record response =
  ok :: bool
  status :: nat
  statusText :: string
  body :: "thrown + json"

datatype event =
    GetAttachment string string
  | Fetch request
  | LogInfo string
  | LogError string
  | CaptureException thrown

record env =
  getAttachment :: "event list \<Rightarrow> string \<Rightarrow> string \<Rightarrow> thrown + attachmentData"
  fetch :: "event list \<Rightarrow> request \<Rightarrow> thrown + response"
  MISTRAL_OCR_API_KEY :: string

definition MISTRAL_OCR_ENDPOINT :: string where
  "MISTRAL_OCR_ENDPOINT = ''https://api.mistral.ai/v1/ocr''"

text \<open>A number in a template literal\<close>

definition digitChar :: "nat \<Rightarrow> char" where
  "digitChar d = ''0123456789'' ! d"

fun showNat :: "nat \<Rightarrow> string" where
  "showNat n = (if n < 10 then [digitChar n] else showNat (n div 10) @ [digitChar (n mod 10)])"

section \<open>processPDFWithMistralOCR\<close>

text \<open>The \<open>catch\<close> block: report the error and throw it again.\<close>

definition rethrow :: "thrown \<Rightarrow> event list \<Rightarrow> (thrown + 'a) \<times> event list" where
  "rethrow e tr = (Inl e, tr @ [CaptureException e])"

definition ocrRequest :: "env \<Rightarrow> attachment \<Rightarrow> attachmentData \<Rightarrow> request" where
  "ocrRequest ev a d =
     \<lparr>url = MISTRAL_OCR_ENDPOINT, httpMethod = ''POST'',
      authorization = ''Bearer '' @ MISTRAL_OCR_API_KEY ev,
      fileName = filename a, fileData = data d,
      model = ''mistral-ocr-2505'', include_json = ''true''\<rparr>"

definition processPDFWithMistralOCR ::
  "(string \<Rightarrow> 'n) \<Rightarrow> env \<Rightarrow> string \<Rightarrow> attachment \<Rightarrow> event list
     \<Rightarrow> (thrown + 'n MistralOCRResult) \<times> event list" where
  "processPDFWithMistralOCR parseFloat ev messageId a tr =
     (let tr1 = tr @ [GetAttachment messageId (attachmentId a)] in
      case getAttachment ev tr messageId (attachmentId a) of
        Inl e \<Rightarrow> rethrow e tr1
      | Inr attachmentData \<Rightarrow>
         (let tr2 = tr1 @ [LogInfo ''Retrieved PDF attachment''];
              req = ocrRequest ev a attachmentData;
              tr3 = tr2 @ [Fetch req]
          in case fetch ev tr2 req of
               Inl e \<Rightarrow> rethrow e tr3
             | Inr response \<Rightarrow>
                if \<not> ok response
                then rethrow (ErrorObject ''Error''
                       (''Mistral OCR API error: '' @ showNat (status response) @ '' ''
                          @ statusText response)) tr3
                else
                 (case body response of
                    Inl e \<Rightarrow> rethrow e tr3
                  | Inr result \<Rightarrow>
                     (case member result ''text'' of
                        Inl e \<Rightarrow> rethrow e tr3
                      | Inr t \<Rightarrow>
                         (let tr4 = tr3 @ [LogInfo ''Successfully processed PDF with Mistral OCR'']
                          in case extractBillingData parseFloat result of
                               Inl e \<Rightarrow> rethrow e tr4
                             | Inr extracted \<Rightarrow>
                                 (Inr \<lparr>ocrAttachmentId = attachmentId a,
                                       ocrFilename = filename a,
                                       success = True,
                                       ocrText = Some (orElse t (JString [])),
                                       extractedData = Some extracted,
                                       error = None\<rparr>, tr4))))))"

section \<open>processPDFAttachments\<close>

definition isPDF :: "attachment \<Rightarrow> bool" where
  "isPDF a = (mimeType a = ''application/pdf'')"

text \<open>The result that the \<open>catch\<close> block of the loop builds from the error.\<close>

definition failed :: "attachment \<Rightarrow> thrown \<Rightarrow> 'n MistralOCRResult" where
  "failed a e =
     \<lparr>ocrAttachmentId = attachmentId a, ocrFilename = filename a, success = False,
      ocrText = None, extractedData = None, error = Some (errorText e)\<rparr>"

text \<open>The loop over \<open>message.attachments\<close>; \<open>acc\<close> is \<open>enrichedAttachments\<close>.\<close>

fun enrich ::
  "(string \<Rightarrow> 'n) \<Rightarrow> env \<Rightarrow> string \<Rightarrow> attachment list \<Rightarrow> 'n enrichedAttachment list
     \<Rightarrow> event list \<Rightarrow> 'n enrichedAttachment list \<times> event list" where
  "enrich parseFloat ev messageId [] acc tr = (acc, tr)"
| "enrich parseFloat ev messageId (a # as) acc tr =
     (if isPDF a
      then (case processPDFWithMistralOCR parseFloat ev messageId a tr of
              (Inr r, tr') \<Rightarrow>
                enrich parseFloat ev messageId as (acc @ [withOcrResult a r]) tr'
            | (Inl e, tr') \<Rightarrow>
                enrich parseFloat ev messageId as (acc @ [withOcrResult a (failed a e)])
                  (tr' @ [LogError ''Failed to process PDF with Mistral OCR'']))
      else enrich parseFloat ev messageId as (acc @ [asIs a]) tr)"

definition processPDFAttachments ::
  "(string \<Rightarrow> 'n) \<Rightarrow> env \<Rightarrow> parsedMessage \<Rightarrow> event list
     \<Rightarrow> (thrown + 'n enrichedMessage) \<times> event list" where
  "processPDFAttachments parseFloat ev message tr =
     (case attachments message of
        None \<Rightarrow> (Inr (unchanged message), tr)
      | Some atts \<Rightarrow>
         if length atts = 0 then (Inr (unchanged message), tr)
         else
          (let pdfAttachments = filter isPDF atts in
           if length pdfAttachments = 0
           then (Inr (unchanged message), tr @ [LogInfo ''No PDF attachments found''])
           else
            (let tr1 = tr @ [LogInfo ''Processing PDF attachments with Mistral OCR''];
                 (enriched, tr2) = enrich parseFloat ev (id_msg message) atts [] tr1
             in (Inr (withEnrichedAttachments message enriched), tr2))))"

section \<open>isLikelyBillingMessage\<close>

definition billingKeywords :: "string list" where
  "billingKeywords =
     [''invoice'', ''bill'', ''statement'', ''payment'', ''due'', ''attorney'', ''legal'',
      ''phone'', ''utility'', ''telecom'', ''mobile'', ''verizon'', ''at&t'', ''t-mobile'']"

definition isLikelyBillingMessage :: "parsedMessage \<Rightarrow> bool" where
  "isLikelyBillingMessage message =
     (let subject = toLowerCase (subject message);
          from = toLowerCase (headers_from message);
          hasBillingKeyword =
            list_ex (\<lambda>keyword. includes_str subject keyword \<or> includes_str from keyword)
              billingKeywords;
          hasPDFAttachments =
            (case attachments message of
               None \<Rightarrow> False
             | Some atts \<Rightarrow> list_ex (\<lambda>attachment. mimeType attachment = ''application/pdf'') atts)
      in hasBillingKeyword \<and> hasPDFAttachments)"

section \<open>Notions used in the statements\<close>

text \<open>In closed examples the numbers are kept as the calls of \<open>parseFloat\<close> that give
  them.\<close>

datatype number = ParseFloat string

text \<open>The text on which \<open>extractBillingData\<close> runs its patterns, for the responses
  that have one: the property \<open>text\<close> when it is a non-empty string, and the empty text
  when the property is missing or is one of \<open>null\<close>, \<open>false\<close>, \<open>0\<close>, \<open>""\<close>.\<close>

definition inputText :: "json \<Rightarrow> string option" where
  "inputText r =
     (case member r ''text'' of
        Inl e \<Rightarrow> None
      | Inr t \<Rightarrow> (case orElse t (JString []) of JString text \<Rightarrow> Some text | _ \<Rightarrow> None))"

text \<open>A pattern whose group 1 takes part in every match.\<close>

fun noGroup :: "regex \<Rightarrow> bool" where
  "noGroup (Group r) = False"
| "noGroup (Seq a b) = (noGroup a \<and> noGroup b)"
| "noGroup (Alt a b) = (noGroup a \<and> noGroup b)"
| "noGroup r = True"

fun setsGroup :: "regex \<Rightarrow> bool" where
  "setsGroup (Group r) = True"
| "setsGroup (Seq a b) = (setsGroup b \<or> (setsGroup a \<and> noGroup b))"
| "setsGroup (Alt a b) = (setsGroup a \<and> setsGroup b)"
| "setsGroup r = False"

text \<open>No pattern of \<open>extractBillingData\<close> matches the text, and no keyword of the
  document types occurs in it.\<close>

definition noPatternMatches :: "string \<Rightarrow> bool" where
  "noPatternMatches text =
     (list_all (\<lambda>pattern. match text pattern = None)
        (amountPatterns @ [dueDatePattern, invoicePattern, vendorPattern])
      \<and> list_all (\<lambda>keyword. \<not> includes_str (toLowerCase text) keyword)
          [''phone'', ''telecom'', ''legal'', ''attorney'', ''invoice''])"

definition fieldNames :: "string list" where
  "fieldNames = [''documentType'', ''totalAmount'', ''dueDate'', ''vendor'', ''invoiceNumber'']"

text \<open>Two characters that are equal up to case: the same character, or a capital
  letter and its small letter, which is 32 code points up (A-Z, and U+00C0-U+00DE
  without the multiplication sign U+00D7).\<close>

definition isCasePair :: "char \<Rightarrow> char \<Rightarrow> bool" where
  "isCasePair u l =
     (of_char l = (of_char u :: nat) + 32 \<and>
      ((65 \<le> (of_char u :: nat) \<and> (of_char u :: nat) \<le> 90) \<or>
       (192 \<le> (of_char u :: nat) \<and> (of_char u :: nat) \<le> 222 \<and> (of_char u :: nat) \<noteq> 215)))"

definition equalIgnoringCase :: "char \<Rightarrow> char \<Rightarrow> bool" where
  "equalIgnoringCase a b = (a = b \<or> isCasePair a b \<or> isCasePair b a)"

text \<open>A keyword occurs in a string, upper and lower case taken as equal: some part of
  the string is the keyword, character by character, up to case.\<close>

definition occursIgnoringCase :: "string \<Rightarrow> string \<Rightarrow> bool" where
  "occursIgnoringCase k s =
     (\<exists>pre mid post. s = pre @ mid @ post \<and> list_all2 equalIgnoringCase mid k)"

definition attachmentList :: "parsedMessage \<Rightarrow> attachment list" where
  "attachmentList m = (case attachments m of None \<Rightarrow> [] | Some atts \<Rightarrow> atts)"

text \<open>The classification in the words of the specification: a fixed ordered list of
  rules, each a set of keywords and a type, of which the first that matches wins. The
  rules are those of the branches of \<open>extractBillingData\<close>, in their order; a rule
  matches a text when one of its keywords occurs in the text in lower case.\<close>

definition documentTypeRules :: "(string list \<times> string) list" where
  "documentTypeRules =
     [([''phone'', ''telecom''], ''phone_bill''),
      ([''legal'', ''attorney''], ''legal_invoice''),
      ([''invoice''], ''invoice'')]"

definition ruleMatches :: "string \<Rightarrow> string list \<times> string \<Rightarrow> bool" where
  "ruleMatches text rule = list_ex (\<lambda>keyword. includes_str (toLowerCase text) keyword) (fst rule)"

definition firstMatchingRule :: "string \<Rightarrow> 'n val" where
  "firstMatchingRule text =
     (case find (ruleMatches text) documentTypeRules of
        None \<Rightarrow> Undefined
      | Some rule \<Rightarrow> Str (snd rule))"

text \<open>The calls to the email provider and to the OCR service in a trace.\<close>

fun isGetAttachment :: "event \<Rightarrow> bool" where
  "isGetAttachment (GetAttachment messageId attId) = True"
| "isGetAttachment e = False"

fun isFetch :: "event \<Rightarrow> bool" where
  "isFetch (Fetch req) = True"
| "isFetch e = False"

text \<open>The calls to the OCR service for a file of a given name.\<close>

fun isFetchOf :: "string \<Rightarrow> event \<Rightarrow> bool" where
  "isFetchOf f (Fetch req) = (fileName req = f)"
| "isFetchOf f e = False"



section \<open>Examples\<close>

definition billMessage :: parsedMessage where
  "billMessage =
     \<lparr>id_msg = ''18c2'', subject = ''Your VERIZON Statement'',
      headers_from = ''Billing <no-reply@example.com>'',
      attachments = Some [\<lparr>attachmentId = ''a1'', filename = ''march.pdf'',
                            mimeType = ''application/pdf''\<rparr>]\<rparr>"

definition statementPdf :: attachment where
  "statementPdf = \<lparr>attachmentId = ''a1'', filename = ''march.pdf'', mimeType = ''application/pdf''\<rparr>"

definition logoPng :: attachment where
  "logoPng = \<lparr>attachmentId = ''a2'', filename = ''logo.png'', mimeType = ''image/png''\<rparr>"

definition invoicePdf :: attachment where
  "invoicePdf = \<lparr>attachmentId = ''a3'', filename = ''invoice.pdf'', mimeType = ''application/pdf''\<rparr>"

definition threeAttachments :: parsedMessage where
  "threeAttachments =
     \<lparr>id_msg = ''18c3'', subject = ''Invoice and statement'', headers_from = ''billing@example.com'',
      attachments = Some [statementPdf, logoPng, invoicePdf]\<rparr>"


definition noPdfMessage :: parsedMessage where
  "noPdfMessage =
     \<lparr>id_msg = ''18c4'', subject = ''Invoice'', headers_from = ''billing@example.com'',
      attachments = Some [logoPng]\<rparr>"

definition pdfData :: attachmentData where
  "pdfData = \<lparr>data = ''JVBERi0xLjQK'', size = 9\<rparr>"

definition unavailable :: response where
  "unavailable = \<lparr>ok = False, status = 503, statusText = ''Service Unavailable'', body = Inr JNull\<rparr>"


text \<open>An OCR service that answers 503 to every request, one that cannot be reached,
  and one that answers 503 to the first request and answers well from then on.\<close>

definition envUnavailable :: env where
  "envUnavailable =
     \<lparr>getAttachment = (\<lambda>tr messageId attId. Inr pdfData),
      fetch = (\<lambda>tr req. Inr unavailable),
      MISTRAL_OCR_API_KEY = ''key''\<rparr>"



section \<open>The graph merge engine\<close>

text \<open>
  The repository holds no code of the graph merge engine: its documents describe the
  data model and plan the graph ingestion service. The definitions of this section
  follow the specification (sections 3, 4.3, 5 and 6).
\<close>

text \<open>Modelled from the spec: the variants of a CommunicationRecord, the relationships
  of section 3 that \<open>merge\<close> writes, the nodes by their identity keys, the lifecycle of
  a BillableEvent and the errors of \<open>merge\<close> (sections 3 and 7).\<close>

datatype recordKind = Email | PhoneCall | Document

datatype participantRole = Sent | To | Cc | Bcc | ParticipatedIn | Authored

datatype edgeType =
    SENT | TO | CC | BCC | PARTICIPATED_IN | AUTHORED | RELATES_TO | GENERATED | FOR_CASE

datatype node = PersonNode string | RecordNode string | CaseNode string | EventNode nat

datatype lifecycle = Draft | Approved | Rejected

datatype mergeError = UnknownCaseError | DataIntegrityError

text \<open>Modelled from the spec: the node of a CommunicationRecord, with its timestamp, its
  optional summary and its optional source pointer (section 3).\<close>

record recordNode =
  nodeKind :: recordKind
  nodeTimestamp :: int
  nodeSummary :: "string option"
  nodeSourcePointer :: "string option"

text \<open>Modelled from the spec: a normalized record as \<open>merge\<close> receives it, with its
  natural key and with the results of the entity resolver for its participants, each a
  role and the identity key of a person (sections 2 and 4.3, step 2).\<close>

record normalizedRecord =
  naturalKey :: string
  recKind :: recordKind
  recTimestamp :: int
  recSummary :: "string option"
  recSourcePointer :: "string option"
  participants :: "(participantRole \<times> string) list"

text \<open>Modelled from the spec: a BillingExtraction (sections 2 and 6).\<close>

record billingExtraction =
  exDocumentType :: "string option"
  exTotalAmount :: "rat option"
  exDueDate :: "string option"
  exVendor :: "string option"
  exInvoiceNumber :: "string option"
  exConfidence :: rat

text \<open>Modelled from the spec: a BillableEvent, with its generated identity and the
  attributes of section 3.\<close>

record billableEvent =
  eventId :: nat
  description :: string
  eventTimestamp :: int
  suggestedDuration :: rat
  lifecycleStatus :: lifecycle
  sourceType :: recordKind

text \<open>Modelled from the spec: the graph store. Nodes are kept by their keys, a billable
  event by the pair of record and case that it is deduplicated by, edges as triples of
  source, type and target (section 9), and the cases are those of the case registry.
  Identities of events are generated from a counter.\<close>

record graph =
  records :: "(string \<times> recordNode) list"
  events :: "((string \<times> string) \<times> billableEvent) list"
  edges :: "(node \<times> edgeType \<times> node) list"
  cases :: "string list"
  nextEventId :: nat

text \<open>Modelled from the spec: what the specification leaves to the extractor and to
  the implementer, taken as parameters: which document types are billable, and the
  description and the duration of the event that a record and an extraction give.\<close>

record policy =
  billableType :: "string \<Rightarrow> bool"
  describe :: "normalizedRecord \<Rightarrow> billingExtraction \<Rightarrow> string"
  estimate :: "normalizedRecord \<Rightarrow> billingExtraction \<Rightarrow> rat"

text \<open>Modelled from the spec: upsert by key, create if absent and replace otherwise
  (section 4.3).\<close>

fun upsert :: "'k \<Rightarrow> 'v \<Rightarrow> ('k \<times> 'v) list \<Rightarrow> ('k \<times> 'v) list" where
  "upsert k v [] = [(k, v)]"
| "upsert k v (p # ps) = (if fst p = k then (k, v) # ps else p # upsert k v ps)"

text \<open>Modelled from the spec: an edge is written unless the graph has it, so that no
  edge is there twice (section 4.3).\<close>

definition ensureEdge :: "node \<times> edgeType \<times> node \<Rightarrow> graph \<Rightarrow> graph" where
  "ensureEdge e g = g\<lparr>edges := List.insert e (edges g)\<rparr>"

text \<open>Modelled from the spec: a summary or source pointer that is there and is not
  empty (section 4.3, step 1).\<close>

definition isPresent :: "string option \<Rightarrow> bool" where
  "isPresent s = (case s of None \<Rightarrow> False | Some t \<Rightarrow> t \<noteq> [])"

text \<open>Modelled from the spec: the summary and the source pointer of a node that exists
  are set if the record has them and the node had none; an existing non-empty one is
  never overwritten (section 4.3, step 1).\<close>

definition enrichField :: "string option \<Rightarrow> string option \<Rightarrow> string option" where
  "enrichField new old = (if isPresent new \<and> \<not> isPresent old then new else old)"

text \<open>Modelled from the spec: step 1 of \<open>merge\<close>, the upsert of the node of the record
  by its natural key.\<close>

definition upsertRecordNode ::
  "normalizedRecord \<Rightarrow> (string \<times> recordNode) list \<Rightarrow> (string \<times> recordNode) list" where
  "upsertRecordNode r rs =
     (case map_of rs (naturalKey r) of
        None \<Rightarrow>
          upsert (naturalKey r)
            \<lparr>nodeKind = recKind r, nodeTimestamp = recTimestamp r,
             nodeSummary = recSummary r, nodeSourcePointer = recSourcePointer r\<rparr> rs
      | Some old \<Rightarrow>
          upsert (naturalKey r)
            (old\<lparr>nodeSummary := enrichField (recSummary r) (nodeSummary old),
                 nodeSourcePointer := enrichField (recSourcePointer r) (nodeSourcePointer old)\<rparr>)
            rs)"

definition upsertRecord :: "normalizedRecord \<Rightarrow> graph \<Rightarrow> graph" where
  "upsertRecord r g = g\<lparr>records := upsertRecordNode r (records g)\<rparr>"

text \<open>Modelled from the spec: step 2 of \<open>merge\<close>, the edges between the record and the
  persons that the entity resolver gave (relationships of section 3).\<close>

fun participantEdge :: "string \<Rightarrow> participantRole \<times> string \<Rightarrow> node \<times> edgeType \<times> node" where
  "participantEdge k (Sent, p) = (PersonNode p, SENT, RecordNode k)"
| "participantEdge k (To, p) = (RecordNode k, TO, PersonNode p)"
| "participantEdge k (Cc, p) = (RecordNode k, CC, PersonNode p)"
| "participantEdge k (Bcc, p) = (RecordNode k, BCC, PersonNode p)"
| "participantEdge k (ParticipatedIn, p) = (PersonNode p, PARTICIPATED_IN, RecordNode k)"
| "participantEdge k (Authored, p) = (PersonNode p, AUTHORED, RecordNode k)"

definition upsertParticipants :: "normalizedRecord \<Rightarrow> graph \<Rightarrow> graph" where
  "upsertParticipants r g =
     fold (\<lambda>p. ensureEdge (participantEdge (naturalKey r) p)) (participants r) g"

text \<open>Modelled from the spec: the billing signal of step 4, an extraction with a
  confidence other than zero that has an amount or a billable document type.\<close>

definition billingSignal :: "policy \<Rightarrow> billingExtraction option \<Rightarrow> bool" where
  "billingSignal P x =
     (case x of
        None \<Rightarrow> False
      | Some ex \<Rightarrow>
          exConfidence ex \<noteq> 0 \<and>
          (exTotalAmount ex \<noteq> None \<or>
           (case exDocumentType ex of None \<Rightarrow> False | Some t \<Rightarrow> billableType P t)))"

text \<open>Modelled from the spec: step 4 of \<open>merge\<close>. The event of the record and the case
  is created as a draft, with a new identity and the edge GENERATED from the record, if
  there is none; an event that exists is amended in its description and its duration
  while it is a draft, and is left as it is once approved or rejected.\<close>

definition upsertEvent ::
  "policy \<Rightarrow> normalizedRecord \<Rightarrow> billingExtraction \<Rightarrow> string \<Rightarrow> graph \<Rightarrow> graph" where
  "upsertEvent P r ex c g =
     (case map_of (events g) (naturalKey r, c) of
        None \<Rightarrow>
          ensureEdge (RecordNode (naturalKey r), GENERATED, EventNode (nextEventId g))
            (g\<lparr>events := upsert (naturalKey r, c)
                  \<lparr>eventId = nextEventId g, description = describe P r ex,
                   eventTimestamp = recTimestamp r, suggestedDuration = estimate P r ex,
                   lifecycleStatus = Draft, sourceType = recKind r\<rparr>
                  (events g),
               nextEventId := Suc (nextEventId g)\<rparr>)
      | Some ev \<Rightarrow>
          if lifecycleStatus ev = Draft
          then g\<lparr>events := upsert (naturalKey r, c)
                   (ev\<lparr>description := describe P r ex, suggestedDuration := estimate P r ex\<rparr>)
                   (events g)\<rparr>
          else g)"

text \<open>Modelled from the spec: step 5 of \<open>merge\<close>. The edge FOR_CASE of the event of the
  record and the case is written if the event has none, and otherwise every such edge
  must lead to the case; a mismatch is an error and is not repaired.\<close>

definition forCaseTargets :: "nat \<Rightarrow> graph \<Rightarrow> node list" where
  "forCaseTargets i g =
     map (\<lambda>e. snd (snd e)) (filter (\<lambda>e. fst e = EventNode i \<and> fst (snd e) = FOR_CASE) (edges g))"

definition verifyForCase :: "string \<Rightarrow> string \<Rightarrow> graph \<Rightarrow> mergeError + graph" where
  "verifyForCase k c g =
     (case map_of (events g) (k, c) of
        None \<Rightarrow> Inr g
      | Some ev \<Rightarrow>
          if forCaseTargets (eventId ev) g = []
          then Inr (ensureEdge (EventNode (eventId ev), FOR_CASE, CaseNode c) g)
          else if list_all (\<lambda>t. t = CaseNode c) (forCaseTargets (eventId ev) g)
          then Inr g
          else Inl DataIntegrityError)"

text \<open>Modelled from the spec: \<open>merge\<close> (section 4.3), steps 1 to 5 in order. Without
  a case the record and its participants are merged and nothing else (section 6); a
  case that the registry does not know is an error. The result is the new graph or an
  error; the call is one transaction (section 5), so that an error leaves the graph as
  it was.\<close>

definition merge ::
  "policy \<Rightarrow> normalizedRecord \<Rightarrow> billingExtraction option \<Rightarrow> string option \<Rightarrow> graph
     \<Rightarrow> mergeError + graph" where
  "merge P r x caseRef g =
     (let g1 = upsertRecord r g;
          g2 = upsertParticipants r g1
      in case caseRef of
           None \<Rightarrow> Inr g2
         | Some c \<Rightarrow>
             if c \<notin> set (cases g2) then Inl UnknownCaseError
             else
              (let g3 = ensureEdge (RecordNode (naturalKey r), RELATES_TO, CaseNode c) g2;
                   g4 = (case x of
                           None \<Rightarrow> g3
                         | Some ex \<Rightarrow> if billingSignal P x then upsertEvent P r ex c g3 else g3)
               in verifyForCase (naturalKey r) c g4))"

text \<open>Modelled from the spec: the graph state after a call of \<open>merge\<close>, and after \<open>n\<close>
  calls with the same record, extraction and case (section 8).\<close>

definition afterMerge ::
  "policy \<Rightarrow> normalizedRecord \<Rightarrow> billingExtraction option \<Rightarrow> string option \<Rightarrow> graph \<Rightarrow> graph" where
  "afterMerge P r x caseRef g = (case merge P r x caseRef g of Inl e \<Rightarrow> g | Inr g' \<Rightarrow> g')"

fun mergeTimes ::
  "nat \<Rightarrow> policy \<Rightarrow> normalizedRecord \<Rightarrow> billingExtraction option \<Rightarrow> string option \<Rightarrow> graph
     \<Rightarrow> graph" where
  "mergeTimes 0 P r x caseRef g = g"
| "mergeTimes (Suc n) P r x caseRef g = afterMerge P r x caseRef (mergeTimes n P r x caseRef g)"

text \<open>Modelled from the spec: a graph without duplicate nodes or edges; no key and no
  edge is there twice, and no two events have the same identity, all identities being
  below the counter (sections 3 and 4.3).\<close>

definition noDuplicates :: "graph \<Rightarrow> bool" where
  "noDuplicates g =
     (distinct (map fst (records g)) \<and> distinct (map fst (events g)) \<and> distinct (edges g)
      \<and> distinct (map (\<lambda>e. eventId (snd e)) (events g))
      \<and> list_all (\<lambda>e. eventId (snd e) < nextEventId g) (events g))"

text \<open>Scenario A of the specification: an email with an extraction that has an amount,
  merged into the case CV-2025-123 of an otherwise empty graph.\<close>

definition scenarioPolicy :: policy where
  "scenarioPolicy =
     \<lparr>billableType = (\<lambda>t. t = ''legal_invoice''),
      describe = (\<lambda>r ex. ''Email '' @ naturalKey r),
      estimate = (\<lambda>r ex. 1 / 4)\<rparr>"

definition scenarioRecord :: normalizedRecord where
  "scenarioRecord =
     \<lparr>naturalKey = ''<msg-1@example.com>'', recKind = Email, recTimestamp = 1762300800,
      recSummary = Some ''Invoice for October'', recSourcePointer = None,
      participants = [(Sent, ''client@example.com''), (To, ''attorney@example.com'')]\<rparr>"

definition scenarioExtraction :: billingExtraction where
  "scenarioExtraction =
     \<lparr>exDocumentType = Some ''legal_invoice'', exTotalAmount = Some 450, exDueDate = None,
      exVendor = None, exInvoiceNumber = None, exConfidence = 4 / 5\<rparr>"

definition caseGraph :: graph where
  "caseGraph = \<lparr>records = [], events = [], edges = [], cases = [''CV-2025-123''], nextEventId = 0\<rparr>"

definition mergedGraph :: graph where
  "mergedGraph =
     \<lparr>records =
        [(''<msg-1@example.com>'',
          \<lparr>nodeKind = Email, nodeTimestamp = 1762300800,
           nodeSummary = Some ''Invoice for October'', nodeSourcePointer = None\<rparr>)],
      events =
        [((''<msg-1@example.com>'', ''CV-2025-123''),
          \<lparr>eventId = 0, description = ''Email <msg-1@example.com>'',
           eventTimestamp = 1762300800, suggestedDuration = 1 / 4,
           lifecycleStatus = Draft, sourceType = Email\<rparr>)],
      edges =
        [(EventNode 0, FOR_CASE, CaseNode ''CV-2025-123''),
         (RecordNode ''<msg-1@example.com>'', GENERATED, EventNode 0),
         (RecordNode ''<msg-1@example.com>'', RELATES_TO, CaseNode ''CV-2025-123''),
         (RecordNode ''<msg-1@example.com>'', TO, PersonNode ''attorney@example.com''),
         (PersonNode ''client@example.com'', SENT, RecordNode ''<msg-1@example.com>'')],
      cases = [''CV-2025-123''], nextEventId = 1\<rparr>"

section \<open>Strings and patterns\<close>

lemma take_eq_iff_prefix: "take (length k) s = k \<longleftrightarrow> (\<exists>post. s = k @ post)"
proof
  assume "take (length k) s = k"
  then have "s = k @ drop (length k) s"
    using append_take_drop_id [of "length k" s] by simp
  then show "\<exists>post. s = k @ post" ..
next
  assume "\<exists>post. s = k @ post"
  then obtain post where "s = k @ post" ..
  then show "take (length k) s = k" by simp
qed

lemma occurs_Cons:
  "(\<exists>pre post. c # s = pre @ k @ post) \<longleftrightarrow>
     (\<exists>post. c # s = k @ post) \<or> (\<exists>pre post. s = pre @ k @ post)"
proof
  assume "\<exists>pre post. c # s = pre @ k @ post"
  then obtain pre post where e: "c # s = pre @ k @ post" by blast
  show "(\<exists>post. c # s = k @ post) \<or> (\<exists>pre post. s = pre @ k @ post)"
  proof (cases pre)
    case Nil
    with e have "c # s = k @ post" by simp
    then show ?thesis by blast
  next
    case (Cons p ps)
    with e have "s = ps @ k @ post" by simp
    then show ?thesis by blast
  qed
next
  assume "(\<exists>post. c # s = k @ post) \<or> (\<exists>pre post. s = pre @ k @ post)"
  then show "\<exists>pre post. c # s = pre @ k @ post"
  proof
    assume "\<exists>post. c # s = k @ post"
    then obtain post where "c # s = k @ post" ..
    then have "c # s = [] @ k @ post" by simp
    then show ?thesis by blast
  next
    assume "\<exists>pre post. s = pre @ k @ post"
    then obtain pre post where "s = pre @ k @ post" by blast
    then have "c # s = (c # pre) @ k @ post" by simp
    then show ?thesis by blast
  qed
qed

lemma includes_str_iff: "includes_str s k \<longleftrightarrow> (\<exists>pre post. s = pre @ k @ post)"
proof (induction s)
  case Nil
  show ?case by simp
next
  case (Cons c s)
  have "includes_str (c # s) k \<longleftrightarrow> (\<exists>post. c # s = k @ post) \<or> includes_str s k"
    using take_eq_iff_prefix [of k "c # s"] by (simp only: includes_str.simps)
  with Cons show ?case
    by (simp only: occurs_Cons)
qed

lemma code_toLowerChar:
  "(of_char (toLowerChar c) :: nat) =
     (if (65 \<le> (of_char c :: nat) \<and> (of_char c :: nat) \<le> 90) \<or>
         (192 \<le> (of_char c :: nat) \<and> (of_char c :: nat) \<le> 222 \<and> (of_char c :: nat) \<noteq> 215)
      then of_char c + 32 else of_char c)"
proof (cases c)
  case (Char b0 b1 b2 b3 b4 b5 b6 b7)
  show ?thesis
    unfolding Char
    by (cases b0; cases b1; cases b2; cases b3; cases b4; cases b5; cases b6; cases b7;
        simp add: toLowerChar_def isUpperCase_def code_def)
qed

lemma toLowerChar_eq_iff:
  assumes "toLowerChar k = k"
  shows "toLowerChar c = k \<longleftrightarrow> equalIgnoringCase c k"
proof -
  have inj: "a = b" if "(of_char a :: nat) = of_char b" for a b :: char
    using that by (simp add: of_char_eq_iff)
  have k: "\<not> ((65 \<le> (of_char k :: nat) \<and> (of_char k :: nat) \<le> 90) \<or>
         (192 \<le> (of_char k :: nat) \<and> (of_char k :: nat) \<le> 222 \<and> (of_char k :: nat) \<noteq> 215))"
    using assms code_toLowerChar [of k] by (auto split: if_splits)
  show ?thesis
  proof
    assume "toLowerChar c = k"
    then have "(of_char k :: nat) = of_char (toLowerChar c)" by simp
    then show "equalIgnoringCase c k"
      using code_toLowerChar [of c] inj [of k c]
      by (auto simp: equalIgnoringCase_def isCasePair_def split: if_splits)
  next
    assume "equalIgnoringCase c k"
    then consider "c = k" | "isCasePair c k" | "isCasePair k c"
      by (auto simp: equalIgnoringCase_def)
    then show "toLowerChar c = k"
    proof cases
      case 1
      with assms show ?thesis by simp
    next
      case 2
      then have "(of_char (toLowerChar c) :: nat) = of_char k"
        using code_toLowerChar [of c] by (auto simp: isCasePair_def)
      then show ?thesis by (rule inj)
    next
      case 3
      with k show ?thesis by (auto simp: isCasePair_def)
    qed
  qed
qed

lemma map_toLowerChar_eq_iff:
  "\<forall>c \<in> set k. toLowerChar c = c \<Longrightarrow>
     map toLowerChar mid = k \<longleftrightarrow> list_all2 equalIgnoringCase mid k"
proof (induction mid arbitrary: k)
  case Nil
  show ?case by auto
next
  case (Cons c mid)
  show ?case
  proof (cases k)
    case Nil
    then show ?thesis by simp
  next
    case (Cons kc ks)
    with Cons.prems have "toLowerChar kc = kc" "\<forall>c \<in> set ks. toLowerChar c = c" by simp_all
    then show ?thesis
      using Cons.IH [of ks] toLowerChar_eq_iff [of kc c] Cons by simp
  qed
qed

lemma includes_lower_iff:
  assumes "\<forall>c \<in> set k. toLowerChar c = c"
  shows "includes_str (toLowerCase s) k \<longleftrightarrow> occursIgnoringCase k s"
proof
  assume "includes_str (toLowerCase s) k"
  then obtain pre post where h: "map toLowerChar s = pre @ (k @ post)"
    unfolding includes_str_iff toLowerCase_def by blast
  define mid where "mid = take (length k) (drop (length pre) s)"
  have "s = take (length pre) s @ mid @ drop (length k) (drop (length pre) s)"
    by (simp only: mid_def append_take_drop_id)
  moreover have "map toLowerChar mid = take (length k) (drop (length pre) (map toLowerChar s))"
    by (simp add: mid_def take_map drop_map)
  then have "map toLowerChar mid = k"
    by (simp add: h)
  then have "list_all2 equalIgnoringCase mid k"
    using map_toLowerChar_eq_iff [OF assms] by simp
  ultimately show "occursIgnoringCase k s"
    unfolding occursIgnoringCase_def by blast
next
  assume "occursIgnoringCase k s"
  then obtain pre mid post where s: "s = pre @ mid @ post" and "list_all2 equalIgnoringCase mid k"
    unfolding occursIgnoringCase_def by blast
  then have "map toLowerChar mid = k"
    using map_toLowerChar_eq_iff [OF assms] by simp
  with s have "toLowerCase s = toLowerCase pre @ k @ toLowerCase post"
    by (simp add: toLowerCase_def)
  then show "includes_str (toLowerCase s) k"
    unfolding includes_str_iff by blast
qed

lemma billingKeywords_lower: "k \<in> set billingKeywords \<Longrightarrow> \<forall>c \<in> set k. toLowerChar c = c"
  by (auto simp: billingKeywords_def toLowerChar_def isUpperCase_def code_def)

lemma includes_keyword:
  "k \<in> set billingKeywords \<Longrightarrow> includes_str (toLowerCase s) k \<longleftrightarrow> occursIgnoringCase k s"
  using includes_lower_iff [of k s] billingKeywords_lower by blast

text \<open>
  Claim C10. \<open>isLikelyBillingMessage\<close> holds of a message if and only if one of the
  billing keywords occurs, upper and lower case taken as equal, in the subject or in
  the \<open>from\<close> header, and one of the attachments has the MIME type
  \<open>application/pdf\<close>; it is false of every message without such an attachment.
  That a keyword occurs up to case is said character by character, without the
  conversion to lower case that the function uses.
\<close>

theorem isLikelyBillingMessage_iff:
  "(isLikelyBillingMessage m \<longleftrightarrow>
      (\<exists>k \<in> set billingKeywords.
          occursIgnoringCase k (subject m) \<or> occursIgnoringCase k (headers_from m))
      \<and> (\<exists>a \<in> set (attachmentList m). mimeType a = ''application/pdf''))
   \<and> ((\<forall>a \<in> set (attachmentList m). mimeType a \<noteq> ''application/pdf'')
          \<longrightarrow> \<not> isLikelyBillingMessage m)"
proof -
  have kw: "list_ex (\<lambda>keyword. includes_str (toLowerCase (subject m)) keyword
                       \<or> includes_str (toLowerCase (headers_from m)) keyword) billingKeywords
        \<longleftrightarrow> (\<exists>k \<in> set billingKeywords.
              occursIgnoringCase k (subject m) \<or> occursIgnoringCase k (headers_from m))"
    unfolding list_ex_iff using includes_keyword by blast
  have pdf: "(case attachments m of None \<Rightarrow> False
              | Some atts \<Rightarrow> list_ex (\<lambda>attachment. mimeType attachment = ''application/pdf'') atts)
        \<longleftrightarrow> (\<exists>a \<in> set (attachmentList m). mimeType a = ''application/pdf'')"
    by (auto simp: attachmentList_def list_ex_iff split: option.split)
  have "isLikelyBillingMessage m \<longleftrightarrow>
      (\<exists>k \<in> set billingKeywords.
          occursIgnoringCase k (subject m) \<or> occursIgnoringCase k (headers_from m))
      \<and> (\<exists>a \<in> set (attachmentList m). mimeType a = ''application/pdf'')"
    unfolding isLikelyBillingMessage_def Let_def kw pdf ..
  then show ?thesis by blast
qed

theorem isLikelyBillingMessage_iff_witness:
  "subject billMessage = ''Your VERIZON Statement''
   \<and> headers_from billMessage = ''Billing <no-reply@example.com>''
   \<and> list_all (\<lambda>k. \<not> includes_str (subject billMessage) k
                    \<and> \<not> includes_str (headers_from billMessage) k) billingKeywords
   \<and> isLikelyBillingMessage billMessage
   \<and> (\<exists>k \<in> set billingKeywords.
         occursIgnoringCase k (subject billMessage) \<or> occursIgnoringCase k (headers_from billMessage))
   \<and> (\<exists>a \<in> set (attachmentList billMessage). mimeType a = ''application/pdf'')"
proof -
  have a: "subject billMessage = ''Your VERIZON Statement''"
    "headers_from billMessage = ''Billing <no-reply@example.com>''"
    by (simp_all add: billMessage_def)
  have b: "list_all (\<lambda>k. \<not> includes_str (subject billMessage) k
                    \<and> \<not> includes_str (headers_from billMessage) k) billingKeywords"
    by code_simp
  have c: "isLikelyBillingMessage billMessage" by code_simp
  show ?thesis using isLikelyBillingMessage_iff [of billMessage] a b c by blast
qed

lemma documentTypeOf_firstMatchingRule: "documentTypeOf text = firstMatchingRule text"
  by (simp add: documentTypeOf_def firstMatchingRule_def documentTypeRules_def ruleMatches_def)

text \<open>
  Claim C4, as stated, at two matching rules of which neither is the first matching one:
  the text \<open>phone legal invoice\<close> matches the second and the third rule, and its type
  is that of the first rule, not that of the second.
\<close>

theorem documentType_pair_counterexample:
  "(1::nat) < 2 \<and> 2 < length documentTypeRules
   \<and> ruleMatches ''phone legal invoice'' (documentTypeRules ! 1)
   \<and> ruleMatches ''phone legal invoice'' (documentTypeRules ! 2)
   \<and> (documentTypeOf ''phone legal invoice'' :: number val) \<noteq> Str (snd (documentTypeRules ! 1))
   \<and> (documentTypeOf ''phone legal invoice'' :: number val) = Str ''phone_bill''"
  by code_simp

text \<open>
  Claim C4, amended. The document type is that of the first rule, in the order of
  declaration, that matches the text: when the text matches rule \<open>i\<close> and rule \<open>j\<close>
  with \<open>i < j\<close> and no rule before \<open>i\<close>, the type is that of rule \<open>i\<close>; a text that
  matches no rule has no document type.
\<close>

theorem documentType_first_match:
  "(documentTypeOf text :: 'n val) = firstMatchingRule text
   \<and> (\<forall>i j. i < j \<and> j < length documentTypeRules
          \<and> ruleMatches text (documentTypeRules ! i) \<and> ruleMatches text (documentTypeRules ! j)
          \<and> (\<forall>k < i. \<not> ruleMatches text (documentTypeRules ! k))
        \<longrightarrow> (documentTypeOf text :: 'n val) = Str (snd (documentTypeRules ! i)))
   \<and> ((\<forall>rule \<in> set documentTypeRules. \<not> ruleMatches text rule)
        \<longrightarrow> (documentTypeOf text :: 'n val) = Undefined)"
proof (intro conjI allI impI)
  show "(documentTypeOf text :: 'n val) = firstMatchingRule text"
    by (rule documentTypeOf_firstMatchingRule)
next
  fix i j
  assume h: "i < j \<and> j < length documentTypeRules
          \<and> ruleMatches text (documentTypeRules ! i) \<and> ruleMatches text (documentTypeRules ! j)
          \<and> (\<forall>k < i. \<not> ruleMatches text (documentTypeRules ! k))"
  then have "find (ruleMatches text) documentTypeRules = Some (documentTypeRules ! i)"
    unfolding find_Some_iff by (intro exI [of _ i]) simp
  then show "(documentTypeOf text :: 'n val) = Str (snd (documentTypeRules ! i))"
    by (simp add: documentTypeOf_firstMatchingRule firstMatchingRule_def)
next
  assume "\<forall>rule \<in> set documentTypeRules. \<not> ruleMatches text rule"
  then have "find (ruleMatches text) documentTypeRules = None"
    by (simp add: find_None_iff)
  then show "(documentTypeOf text :: 'n val) = Undefined"
    by (simp add: documentTypeOf_firstMatchingRule firstMatchingRule_def)
qed

theorem documentType_first_match_witness:
  "(1::nat) < 2 \<and> 2 < length documentTypeRules
   \<and> ruleMatches ''Attorney fees - invoice 17'' (documentTypeRules ! 1)
   \<and> ruleMatches ''Attorney fees - invoice 17'' (documentTypeRules ! 2)
   \<and> \<not> ruleMatches ''Attorney fees - invoice 17'' (documentTypeRules ! 0)
   \<and> (documentTypeOf ''Attorney fees - invoice 17'' :: number val) = Str ''legal_invoice''
   \<and> \<not> list_ex (ruleMatches ''hello'') documentTypeRules
   \<and> (documentTypeOf ''hello'' :: number val) = Undefined"
proof -
  have a: "ruleMatches ''Attorney fees - invoice 17'' (documentTypeRules ! 1)" by code_simp
  have b: "ruleMatches ''Attorney fees - invoice 17'' (documentTypeRules ! 2)" by code_simp
  have c0: "\<not> ruleMatches ''Attorney fees - invoice 17'' (documentTypeRules ! 0)" by code_simp
  then have c: "\<forall>k < 1. \<not> ruleMatches ''Attorney fees - invoice 17'' (documentTypeRules ! k)"
    by simp
  have d0: "\<not> list_ex (ruleMatches ''hello'') documentTypeRules" by code_simp
  then have d: "\<forall>rule \<in> set documentTypeRules. \<not> ruleMatches ''hello'' rule"
    by (simp add: list_ex_iff)
  have l: "2 < length documentTypeRules" "snd (documentTypeRules ! 1) = ''legal_invoice''"
    by (simp_all add: documentTypeRules_def)
  note fm = documentType_first_match [where 'n = number]
  have e: "(documentTypeOf ''Attorney fees - invoice 17'' :: number val)
             = Str (snd (documentTypeRules ! 1))"
    using fm [of "''Attorney fees - invoice 17''", THEN conjunct2, THEN conjunct1,
               rule_format, of 1 2] a b c l(1)
    by simp
  have f: "(documentTypeOf ''hello'' :: number val) = Undefined"
    using fm [of "''hello''", THEN conjunct2, THEN conjunct2] d by simp
  show ?thesis using a b c0 d0 e f l by simp
qed

lemma run_noGroup:
  "noGroup r \<Longrightarrow> st' \<in> set (run fl r st) \<Longrightarrow> capture st' = capture st"
proof (induction r arbitrary: st st')
  case (Lit w)
  then show ?case by (auto simp: advance_def split: if_splits)
next
  case (Rep cls lo hi greedy)
  then show ?case by (auto simp: advance_def)
next
  case (Seq a b)
  then show ?case by fastforce
next
  case (Alt a b)
  then show ?case by fastforce
next
  case (Group r)
  then show ?case by simp
next
  case Bol
  then show ?case by (auto split: if_splits)
qed

lemma run_setsGroup:
  "setsGroup r \<Longrightarrow> st' \<in> set (run fl r st) \<Longrightarrow> capture st' \<noteq> None"
proof (induction r arbitrary: st st')
  case (Seq a b)
  from Seq.prems(2) obtain st1 where s1: "st1 \<in> set (run fl a st)" and s2: "st' \<in> set (run fl b st1)"
    by auto
  show ?case
  proof (cases "setsGroup b")
    case True
    with s2 Seq.IH(2) show ?thesis by blast
  next
    case False
    with Seq.prems(1) have "setsGroup a" "noGroup b" by auto
    with s1 s2 Seq.IH(1) run_noGroup [of b st' fl st1] show ?thesis by auto
  qed
next
  case (Alt a b)
  then show ?case by fastforce
next
  case (Group r)
  then show ?case by auto
qed simp_all

lemma execFrom_setsGroup:
  "setsGroup r \<Longrightarrow> execFrom fl r bef text = Some (w, g) \<Longrightarrow> g \<noteq> None"
proof (induction "text" arbitrary: bef)
  case Nil
  then show ?case
    using run_setsGroup [of r _ fl "\<lparr>seen = bef, rest = [], capture = None\<rparr>"]
    by (auto split: list.splits)
next
  case (Cons c cs)
  show ?case
  proof (cases "run fl r \<lparr>seen = bef, rest = c # cs, capture = None\<rparr>")
    case Nil
    with Cons show ?thesis by simp
  next
    case (Cons st sts)
    then have "st \<in> set (run fl r \<lparr>seen = bef, rest = c # cs, capture = None\<rparr>)" by simp
    with Cons.prems(1) have "capture st \<noteq> None" by (rule run_setsGroup)
    with Cons Cons.prems(2) show ?thesis by auto
  qed
qed

lemma match_setsGroup:
  "setsGroup (snd p) \<Longrightarrow> match text p = Some (w, g) \<Longrightarrow> g \<noteq> None"
  unfolding match_def by (rule execFrom_setsGroup)

lemma setsGroup_patterns:
  "\<forall>p \<in> set amountPatterns. setsGroup (snd p)"
  "setsGroup (snd dueDatePattern)"
  "setsGroup (snd invoicePattern)"
  "setsGroup (snd vendorPattern)"
  by (simp_all add: amountPatterns_def dueDatePattern_def invoicePattern_def vendorPattern_def
      seqs_def amountGroup_def star_def opt_def plus_re_def lazyStar_def between_def)

lemma vendorOf_Inr: "\<exists>v. (vendorOf (match text vendorPattern) :: thrown + 'n val) = Inr v"
proof (cases "match text vendorPattern")
  case None
  then show ?thesis by (simp add: vendorOf_def)
next
  case (Some m)
  obtain w g where m: "m = (w, g)" by (cases m)
  with Some setsGroup_patterns(4) have "g \<noteq> None" using match_setsGroup by blast
  with Some m show ?thesis by (auto simp: vendorOf_def)
qed

lemma inputText_string:
  "map_of kvs ''text'' = Some (JString s) \<Longrightarrow> inputText (JObject kvs) = Some s"
  by (simp add: inputText_def orElse_def)

lemma inputText_missing:
  "map_of kvs ''text'' = None \<Longrightarrow> inputText (JObject kvs) = Some []"
  by (simp add: inputText_def orElse_def)

lemma member_json_Inr: "member r ''text'' = Inr t \<Longrightarrow> \<exists>j. member r ''json'' = Inr j"
  by (cases r) simp_all

lemma extract_of_text:
  assumes "inputText r = Some text"
  shows "extractBillingData parseFloat r =
     (case vendorOf (match text vendorPattern) of
        Inl e \<Rightarrow> Inl e
      | Inr vendor \<Rightarrow>
          Inr [(''documentType'', documentTypeOf text),
               (''totalAmount'', totalAmountOf parseFloat text amountPatterns),
               (''dueDate'', group1 (match text dueDatePattern)),
               (''vendor'', vendor),
               (''invoiceNumber'', group1 (match text invoicePattern))])"
proof -
  from assms obtain t where t: "member r ''text'' = Inr t"
    and o: "orElse t (JString []) = JString text"
    by (auto simp: inputText_def split: sum.splits json.splits)
  from t obtain j where j: "member r ''json'' = Inr j"
    using member_json_Inr by blast
  show ?thesis
    by (simp add: extractBillingData_def t j o Let_def split: sum.split)
qed

lemma extract_Inr:
  assumes "inputText r = Some text"
  shows "\<exists>vendor. extractBillingData parseFloat r =
          Inr [(''documentType'', documentTypeOf text),
               (''totalAmount'', totalAmountOf parseFloat text amountPatterns),
               (''dueDate'', group1 (match text dueDatePattern)),
               (''vendor'', vendor),
               (''invoiceNumber'', group1 (match text invoicePattern))]"
proof -
  obtain v where "(vendorOf (match text vendorPattern) :: thrown + 'a val) = Inr v"
    using vendorOf_Inr by blast
  then show ?thesis
    using extract_of_text [OF assms, of parseFloat] by simp
qed

lemma inputText_None:
  "inputText r = None \<Longrightarrow> \<exists>e. extractBillingData parseFloat r = Inl e"
  by (cases r) (auto simp: inputText_def extractBillingData_def Let_def split: sum.splits json.splits)

lemma extract_keys:
  assumes "extractBillingData parseFloat r = Inr d"
  shows "map fst d = fieldNames"
proof (cases "inputText r")
  case None
  with assms show ?thesis using inputText_None [of r parseFloat] by auto
next
  case (Some s)
  from extract_Inr [OF Some, of parseFloat] assms show ?thesis
    by (auto simp: fieldNames_def)
qed

lemma totalAmountOf_None:
  "list_all (\<lambda>p. match text p = None) ps \<Longrightarrow> totalAmountOf parseFloat text ps = Undefined"
  by (induction ps) simp_all

lemma noPatternMatches_fields:
  assumes "noPatternMatches text"
  shows "totalAmountOf parseFloat text amountPatterns = Undefined"
    and "group1 (match text dueDatePattern) = Undefined"
    and "group1 (match text invoicePattern) = Undefined"
    and "vendorOf (match text vendorPattern) = Inr Undefined"
    and "documentTypeOf text = Undefined"
  using assms
  by (simp_all add: noPatternMatches_def totalAmountOf_None group1_def vendorOf_def documentTypeOf_def)

text \<open>
  Claim C2, amended. On every response that has a text (a string, or the empty text in
  its place), \<open>extractBillingData\<close> returns an object and does not throw; when no
  pattern matches, every field of the object is \<open>undefined\<close>; the object has no
  property \<open>confidence\<close>.
\<close>

theorem extractBillingData_total:
  fixes parseFloat :: "string \<Rightarrow> 'n"
  assumes "inputText r = Some text"
  shows "\<exists>d. extractBillingData parseFloat r = Inr d
            \<and> (noPatternMatches text \<longrightarrow> (\<forall>k. getProp d k = Undefined))
            \<and> map_of d ''confidence'' = None"
proof -
  from extract_Inr [OF assms, of parseFloat] obtain vendor where
    d: "extractBillingData parseFloat r =
          Inr [(''documentType'', documentTypeOf text),
               (''totalAmount'', totalAmountOf parseFloat text amountPatterns),
               (''dueDate'', group1 (match text dueDatePattern)),
               (''vendor'', vendor),
               (''invoiceNumber'', group1 (match text invoicePattern))]"
    by blast
  have "vendor = Undefined" if "noPatternMatches text"
  proof -
    have "(vendorOf (match text vendorPattern) :: thrown + 'n val) = Inr Undefined"
      using that by (rule noPatternMatches_fields(4))
    then show ?thesis
      using extract_of_text [OF assms, of parseFloat] d by simp
  qed
  then have "noPatternMatches text \<longrightarrow>
      (\<forall>k. getProp [(''documentType'', documentTypeOf text),
               (''totalAmount'', totalAmountOf parseFloat text amountPatterns),
               (''dueDate'', group1 (match text dueDatePattern)),
               (''vendor'', vendor),
               (''invoiceNumber'', group1 (match text invoicePattern))] k = Undefined)"
    by (simp add: getProp_def noPatternMatches_fields)
  with d show ?thesis by simp
qed

theorem extractBillingData_total_witness:
  "inputText (JObject [(''text'', JString ''hello world'')]) = Some ''hello world''
   \<and> noPatternMatches ''hello world''
   \<and> (\<exists>d. extractBillingData ParseFloat (JObject [(''text'', JString ''hello world'')]) = Inr d
          \<and> (\<forall>k. getProp d k = Undefined) \<and> map_of d ''confidence'' = None)"
proof -
  have h: "inputText (JObject [(''text'', JString ''hello world'')]) = Some ''hello world''"
    by code_simp
  have n: "noPatternMatches ''hello world''"
    by code_simp
  show ?thesis
    using extractBillingData_total [OF h, of ParseFloat] h n by blast
qed

text \<open>
  Claim C2, as stated, at a text that no pattern matches: all five fields are
  \<open>undefined\<close>, and the object has no property \<open>confidence\<close>, so that reading it
  gives \<open>undefined\<close> and not 0.
\<close>

theorem confidence_zero_counterexample:
  "noPatternMatches ''hello world''
   \<and> extractBillingData ParseFloat (JObject [(''text'', JString ''hello world'')]) =
       Inr [(''documentType'', Undefined), (''totalAmount'', Undefined), (''dueDate'', Undefined),
            (''vendor'', Undefined), (''invoiceNumber'', Undefined)]
   \<and> map_of [(''documentType'', Undefined :: number val), (''totalAmount'', Undefined),
              (''dueDate'', Undefined), (''vendor'', Undefined), (''invoiceNumber'', Undefined)]
         ''confidence'' = None"
  by code_simp

text \<open>
  Claim C3, amended. Every object that \<open>extractBillingData\<close> returns has the properties
  \<open>documentType\<close>, \<open>totalAmount\<close>, \<open>dueDate\<close>, \<open>vendor\<close> and \<open>invoiceNumber\<close>, in
  this order and no others; it has no property \<open>confidence\<close>.
\<close>

theorem extraction_result_fields:
  assumes "extractBillingData parseFloat r = Inr d"
  shows "map fst d = fieldNames \<and> map_of d ''confidence'' = None"
proof -
  have k: "map fst d = fieldNames" using assms by (rule extract_keys)
  then have "set (map fst d) = set fieldNames" by simp
  then have "''confidence'' \<notin> set (map fst d)" by (simp add: fieldNames_def)
  then have "''confidence'' \<notin> fst ` set d" by simp
  then show ?thesis using k by (simp add: map_of_eq_None_iff)
qed

theorem extraction_result_fields_witness:
  "extractBillingData ParseFloat (JObject [(''text'', JString ''Invoice #42 Total: $450.00'')]) =
     Inr [(''documentType'', Str ''invoice''), (''totalAmount'', Num (ParseFloat ''450.00'')),
          (''dueDate'', Undefined), (''vendor'', Str []), (''invoiceNumber'', Str ''#42'')]
   \<and> map fst [(''documentType'', Str ''invoice''), (''totalAmount'', Num (ParseFloat ''450.00'')),
          (''dueDate'', Undefined), (''vendor'', Str []), (''invoiceNumber'', Str ''#42'')] = fieldNames"
proof -
  have h: "extractBillingData ParseFloat (JObject [(''text'', JString ''Invoice #42 Total: $450.00'')]) =
     Inr [(''documentType'', Str ''invoice''), (''totalAmount'', Num (ParseFloat ''450.00'')),
          (''dueDate'', Undefined), (''vendor'', Str []), (''invoiceNumber'', Str ''#42'')]"
    by code_simp
  show ?thesis using extraction_result_fields [OF h] h by simp
qed

text \<open>
  Claim C3, as stated, at the text of an invoice: the object returned has no property
  \<open>confidence\<close>.
\<close>

theorem confidence_field_counterexample:
  "extractBillingData ParseFloat (JObject [(''text'', JString ''Invoice #42 Total: $450.00'')]) =
     Inr [(''documentType'', Str ''invoice''), (''totalAmount'', Num (ParseFloat ''450.00'')),
          (''dueDate'', Undefined), (''vendor'', Str []), (''invoiceNumber'', Str ''#42'')]
   \<and> map_of [(''documentType'', Str ''invoice''), (''totalAmount'', Num (ParseFloat ''450.00'')),
          (''dueDate'', Undefined), (''vendor'', Str []), (''invoiceNumber'', Str ''#42'')]
        ''confidence'' = None"
  by code_simp

text \<open>
  Claim C5. The object that \<open>extractBillingData\<close> returns is a function of the text
  alone: two responses with the same text give the same document type, amount, due date,
  vendor and invoice number, whatever else they hold.
\<close>

theorem extraction_depends_on_text_only:
  fixes parseFloat :: "string \<Rightarrow> 'n"
  assumes "inputText r1 = Some text" and "inputText r2 = Some text"
  shows "extractBillingData parseFloat r1 = extractBillingData parseFloat r2"
  using extract_of_text [OF assms(1), of parseFloat] extract_of_text [OF assms(2), of parseFloat]
  by simp

theorem extraction_depends_on_text_only_witness:
  "inputText (JObject [(''text'', JString ''Total: 12''), (''json'', JObject [(''pages'', JNumber 2)])])
     = Some ''Total: 12''
   \<and> inputText (JObject [(''model'', JString ''mistral-ocr-2505''), (''text'', JString ''Total: 12'')])
     = Some ''Total: 12''
   \<and> extractBillingData ParseFloat
         (JObject [(''text'', JString ''Total: 12''), (''json'', JObject [(''pages'', JNumber 2)])])
     = extractBillingData ParseFloat
         (JObject [(''model'', JString ''mistral-ocr-2505''), (''text'', JString ''Total: 12'')])"
proof -
  have a: "inputText (JObject [(''text'', JString ''Total: 12''), (''json'', JObject [(''pages'', JNumber 2)])])
     = Some ''Total: 12''" by code_simp
  have b: "inputText (JObject [(''model'', JString ''mistral-ocr-2505''), (''text'', JString ''Total: 12'')])
     = Some ''Total: 12''" by code_simp
  show ?thesis using extraction_depends_on_text_only [OF a b, of ParseFloat] a b by simp
qed
section \<open>The calls to the email provider and to the OCR service\<close>

lemma ocr_trace:
  "\<exists>es. snd (processPDFWithMistralOCR parseFloat ev messageId a tr) = tr @ es
        \<and> filter isGetAttachment es = [GetAttachment messageId (attachmentId a)]
        \<and> length (filter isFetch es) \<le> 1
        \<and> (\<forall>f. length (filter (isFetchOf f) es) \<le> (if filename a = f then 1 else 0))"
  by (auto simp: processPDFWithMistralOCR_def rethrow_def Let_def ocrRequest_def split: sum.splits)

lemma enrich_trace:
  "\<exists>es. snd (enrich parseFloat ev messageId as acc tr) = tr @ es
        \<and> filter isGetAttachment es
            = map (\<lambda>a. GetAttachment messageId (attachmentId a)) (filter isPDF as)
        \<and> length (filter isFetch es) \<le> length (filter isPDF as)
        \<and> (\<forall>f. length (filter (isFetchOf f) es)
                 \<le> length (filter (\<lambda>a. isPDF a \<and> filename a = f) as))"
proof (induction as arbitrary: acc tr)
  case Nil
  show ?case by simp
next
  case (Cons a as)
  show ?case
  proof (cases "isPDF a")
    case False
    with Cons [of "acc @ [asIs a]" tr] show ?thesis by simp
  next
    case True
    obtain res tr' where p: "processPDFWithMistralOCR parseFloat ev messageId a tr = (res, tr')"
      by (cases "processPDFWithMistralOCR parseFloat ev messageId a tr")
    from ocr_trace [of parseFloat ev messageId a tr] p obtain es1 where
      e1: "tr' = tr @ es1"
          "filter isGetAttachment es1 = [GetAttachment messageId (attachmentId a)]"
          "length (filter isFetch es1) \<le> 1"
          "\<And>f. length (filter (isFetchOf f) es1) \<le> (if filename a = f then 1 else 0)"
      by auto
    define mid where "mid = (case res of Inr r \<Rightarrow> []
                             | Inl e \<Rightarrow> [LogError ''Failed to process PDF with Mistral OCR''])"
    define acc' where "acc' = (case res of Inr r \<Rightarrow> acc @ [withOcrResult a r]
                               | Inl e \<Rightarrow> acc @ [withOcrResult a (failed a e)])"
    have step: "enrich parseFloat ev messageId (a # as) acc tr
                  = enrich parseFloat ev messageId as acc' (tr' @ mid)"
      using True p by (cases res) (simp_all add: mid_def acc'_def)
    have m: "filter isGetAttachment mid = []" "filter isFetch mid = []"
            "\<And>f. filter (isFetchOf f) mid = []"
      by (cases res; simp add: mid_def)+
    from Cons [of acc' "tr' @ mid"] obtain es2 where
      e2: "snd (enrich parseFloat ev messageId as acc' (tr' @ mid)) = (tr' @ mid) @ es2"
          "filter isGetAttachment es2
             = map (\<lambda>a. GetAttachment messageId (attachmentId a)) (filter isPDF as)"
          "length (filter isFetch es2) \<le> length (filter isPDF as)"
          "\<And>f. length (filter (isFetchOf f) es2)
                 \<le> length (filter (\<lambda>a. isPDF a \<and> filename a = f) as)"
      by blast
    let ?es = "es1 @ mid @ es2"
    have "snd (enrich parseFloat ev messageId (a # as) acc tr) = tr @ ?es"
      using step e1(1) e2(1) by simp
    moreover have "filter isGetAttachment ?es
            = map (\<lambda>a. GetAttachment messageId (attachmentId a)) (filter isPDF (a # as))"
      using True e1(2) e2(2) m(1) by simp
    moreover have "length (filter isFetch ?es) \<le> length (filter isPDF (a # as))"
      using True e1(3) e2(3) m(2) by simp
    moreover have "length (filter (isFetchOf f) ?es)
                 \<le> length (filter (\<lambda>a. isPDF a \<and> filename a = f) (a # as))" for f
      using True e1(4) [of f] e2(4) [of f] m(3) [of f] by (simp split: if_splits)
    ultimately show ?thesis by blast
  qed
qed



lemma unchanged_fields:
  "parsedMessage.truncate (unchanged m) = m" "enrichedAttachments (unchanged m) = None"
  by (simp_all add: unchanged_def parsedMessage.truncate_def parsedMessage.extend_def
      enrichedMessage.fields_def)







lemma processPDFAttachments_no_pdf:
  assumes "\<not> list_ex isPDF (attachmentList m)"
  shows "fst (processPDFAttachments parseFloat ev m tr) = Inr (unchanged m)"
    and "filter isGetAttachment (snd (processPDFAttachments parseFloat ev m tr)) = filter isGetAttachment tr"
    and "filter isFetch (snd (processPDFAttachments parseFloat ev m tr)) = filter isFetch tr"
proof -
  have f: "filter isPDF atts = []" if "attachments m = Some atts" for atts
    using assms that by (auto simp: attachmentList_def list_ex_iff filter_empty_conv)
  show "fst (processPDFAttachments parseFloat ev m tr) = Inr (unchanged m)"
    by (simp add: processPDFAttachments_def f split: option.split)
  show "filter isGetAttachment (snd (processPDFAttachments parseFloat ev m tr)) = filter isGetAttachment tr"
    by (simp add: processPDFAttachments_def f split: option.split)
  show "filter isFetch (snd (processPDFAttachments parseFloat ev m tr)) = filter isFetch tr"
    by (simp add: processPDFAttachments_def f split: option.split)
qed

lemma processPDFAttachments_pdf:
  assumes "attachments m = Some atts" and "list_ex isPDF atts"
  shows "processPDFAttachments parseFloat ev m tr =
           (Inr (withEnrichedAttachments m
                  (fst (enrich parseFloat ev (id_msg m) atts []
                          (tr @ [LogInfo ''Processing PDF attachments with Mistral OCR''])))),
            snd (enrich parseFloat ev (id_msg m) atts []
                          (tr @ [LogInfo ''Processing PDF attachments with Mistral OCR''])))"
proof -
  from assms(2) have "filter isPDF atts \<noteq> []" "atts \<noteq> []"
    by (auto simp: list_ex_iff filter_empty_conv)
  then show ?thesis
    by (simp add: processPDFAttachments_def assms(1) Let_def split: prod.split)
qed




text \<open>
  Claim C8. For a message whose attachment list is absent or empty, or holds no
  attachment of MIME type \<open>application/pdf\<close>, \<open>processPDFAttachments\<close> returns the
  message as it is, without a field \<open>enrichedAttachments\<close>.
\<close>

theorem no_pdf_returns_message:
  assumes "attachments m = None
           \<or> (\<exists>atts. attachments m = Some atts \<and> (\<forall>a \<in> set atts. mimeType a \<noteq> ''application/pdf''))"
  shows "\<exists>m'. fst (processPDFAttachments parseFloat ev m tr) = Inr m'
              \<and> parsedMessage.truncate m' = m \<and> enrichedAttachments m' = None"
proof -
  from assms have "\<not> list_ex isPDF (attachmentList m)"
    by (auto simp: attachmentList_def list_ex_iff isPDF_def)
  then have "fst (processPDFAttachments parseFloat ev m tr) = Inr (unchanged m)"
    by (rule processPDFAttachments_no_pdf(1))
  then show ?thesis by (simp add: unchanged_fields)
qed

theorem no_pdf_returns_message_witness:
  "attachments noPdfMessage = Some [logoPng] \<and> mimeType logoPng \<noteq> ''application/pdf''
   \<and> (\<exists>m'. fst (processPDFAttachments ParseFloat envUnavailable noPdfMessage []) = Inr m'
          \<and> parsedMessage.truncate m' = noPdfMessage \<and> enrichedAttachments m' = None)"
proof -
  have h: "attachments noPdfMessage = None
           \<or> (\<exists>atts. attachments noPdfMessage = Some atts
                 \<and> (\<forall>a \<in> set atts. mimeType a \<noteq> ''application/pdf''))"
    by (simp add: noPdfMessage_def logoPng_def)
  show ?thesis
    using no_pdf_returns_message [OF h, of ParseFloat envUnavailable "[]"]
    by (simp add: noPdfMessage_def logoPng_def)
qed



text \<open>
  Claim C7. A call of \<open>processPDFWithMistralOCR\<close> asks the email provider for the
  attachment once and calls the OCR service at most once, also when it fails; a call of
  \<open>processPDFAttachments\<close> asks for the data of each PDF attachment of the message
  once, in the order of the attachments, and calls the OCR service for a file no more
  often than the message has PDF attachments of that name.
\<close>

theorem no_internal_retry:
  "(\<exists>es. snd (processPDFWithMistralOCR parseFloat ev messageId a tr) = tr @ es
        \<and> filter isGetAttachment es = [GetAttachment messageId (attachmentId a)]
        \<and> length (filter isFetch es) \<le> 1)
   \<and> (\<exists>es. snd (processPDFAttachments parseFloat ev m tr) = tr @ es
        \<and> filter isGetAttachment es
            = map (\<lambda>a. GetAttachment (id_msg m) (attachmentId a)) (filter isPDF (attachmentList m))
        \<and> length (filter isFetch es) \<le> length (filter isPDF (attachmentList m))
        \<and> (\<forall>f. length (filter (isFetchOf f) es)
                 \<le> length (filter (\<lambda>a. isPDF a \<and> filename a = f) (attachmentList m))))"
proof
  show "\<exists>es. snd (processPDFWithMistralOCR parseFloat ev messageId a tr) = tr @ es
        \<and> filter isGetAttachment es = [GetAttachment messageId (attachmentId a)]
        \<and> length (filter isFetch es) \<le> 1"
    using ocr_trace [of parseFloat ev messageId a tr] by blast
next
  show "\<exists>es. snd (processPDFAttachments parseFloat ev m tr) = tr @ es
        \<and> filter isGetAttachment es
            = map (\<lambda>a. GetAttachment (id_msg m) (attachmentId a)) (filter isPDF (attachmentList m))
        \<and> length (filter isFetch es) \<le> length (filter isPDF (attachmentList m))
        \<and> (\<forall>f. length (filter (isFetchOf f) es)
                 \<le> length (filter (\<lambda>a. isPDF a \<and> filename a = f) (attachmentList m)))"
  proof (cases "list_ex isPDF (attachmentList m)")
    case False
    then have e: "filter isPDF (attachmentList m) = []"
      by (simp add: list_ex_iff filter_empty_conv)
    have "snd (processPDFAttachments parseFloat ev m tr) = tr @ []
          \<or> snd (processPDFAttachments parseFloat ev m tr) = tr @ [LogInfo ''No PDF attachments found'']"
      using e by (auto simp: processPDFAttachments_def attachmentList_def split: option.splits)
    then show ?thesis using e by auto
  next
    case True
    then obtain atts where a: "attachments m = Some atts" "list_ex isPDF atts"
      by (auto simp: attachmentList_def split: option.splits)
    let ?tr = "tr @ [LogInfo ''Processing PDF attachments with Mistral OCR'']"
    from enrich_trace [of parseFloat ev "id_msg m" atts "[]" ?tr] obtain es where
      es: "snd (enrich parseFloat ev (id_msg m) atts [] ?tr) = ?tr @ es"
          "filter isGetAttachment es
             = map (\<lambda>a. GetAttachment (id_msg m) (attachmentId a)) (filter isPDF atts)"
          "length (filter isFetch es) \<le> length (filter isPDF atts)"
          "\<And>f. length (filter (isFetchOf f) es)
                 \<le> length (filter (\<lambda>a. isPDF a \<and> filename a = f) atts)"
      by blast
    let ?es = "LogInfo ''Processing PDF attachments with Mistral OCR'' # es"
    have l: "attachmentList m = atts" using a(1) by (simp add: attachmentList_def)
    have "snd (processPDFAttachments parseFloat ev m tr) = tr @ ?es"
      by (simp add: processPDFAttachments_pdf [OF a] es(1))
    moreover have "filter isGetAttachment ?es
            = map (\<lambda>a. GetAttachment (id_msg m) (attachmentId a)) (filter isPDF (attachmentList m))"
      using es(2) by (simp add: l)
    moreover have "length (filter isFetch ?es) \<le> length (filter isPDF (attachmentList m))"
      using es(3) by (simp add: l)
    moreover have "length (filter (isFetchOf f) ?es)
                 \<le> length (filter (\<lambda>a. isPDF a \<and> filename a = f) (attachmentList m))" for f
      using es(4) [of f] by (simp add: l)
    ultimately show ?thesis by blast
  qed
qed

theorem no_internal_retry_witness:
  "filter isPDF (attachmentList threeAttachments) = [statementPdf, invoicePdf]
   \<and> (\<exists>es. snd (processPDFWithMistralOCR ParseFloat envUnavailable ''18c3'' statementPdf []) = [] @ es
        \<and> filter isGetAttachment es = [GetAttachment ''18c3'' ''a1'']
        \<and> length (filter isFetch es) \<le> 1)
   \<and> (\<exists>es. snd (processPDFAttachments ParseFloat envUnavailable threeAttachments []) = [] @ es
        \<and> filter isGetAttachment es = [GetAttachment ''18c3'' ''a1'', GetAttachment ''18c3'' ''a3'']
        \<and> length (filter isFetch es) \<le> 2)"
proof -
  have n: "filter isPDF (attachmentList threeAttachments) = [statementPdf, invoicePdf]"
    by code_simp
  have i: "id_msg threeAttachments = ''18c3''" "attachmentId statementPdf = ''a1''"
    "attachmentId invoicePdf = ''a3''"
    by (simp_all add: threeAttachments_def statementPdf_def invoicePdf_def)
  show ?thesis
    using no_internal_retry [of ParseFloat envUnavailable "''18c3''" statementPdf "[]" threeAttachments]
    by (auto simp: n i)
qed



section \<open>Idempotence of the merge\<close>

lemma map_of_upsert: "map_of (upsert k v al) = (map_of al)(k \<mapsto> v)"
  by (induction al) (auto simp: fun_eq_iff)

lemma upsert_triv: "map_of al k = Some v \<Longrightarrow> upsert k v al = al"
  by (induction al) (auto split: if_splits)

lemma keys_upsert: "set (map fst (upsert k v al)) = insert k (set (map fst al))"
  by (induction al) auto

lemma map_fst_upsert_present: "map_of al k = Some w \<Longrightarrow> map fst (upsert k v al) = map fst al"
  by (induction al) (auto split: if_splits)

lemma map_fst_upsert_absent: "map_of al k = None \<Longrightarrow> map fst (upsert k v al) = map fst al @ [k]"
  by (induction al) (auto split: if_splits)

lemma distinct_upsert: "distinct (map fst al) \<Longrightarrow> distinct (map fst (upsert k v al))"
proof (cases "map_of al k")
  case None
  assume "distinct (map fst al)"
  moreover from None have "k \<notin> set (map fst al)" by (simp add: map_of_eq_None_iff)
  ultimately show ?thesis by (simp add: map_fst_upsert_absent [OF None])
next
  case (Some w)
  assume "distinct (map fst al)"
  then show ?thesis by (simp add: map_fst_upsert_present [OF Some])
qed

lemma upsertRecordNode_idem: "upsertRecordNode r (upsertRecordNode r rs) = upsertRecordNode r rs"
proof (cases "map_of rs (naturalKey r)")
  case None
  then show ?thesis
    by (simp add: upsertRecordNode_def map_of_upsert enrichField_def upsert_triv)
next
  case (Some old)
  then show ?thesis
    by (simp add: upsertRecordNode_def map_of_upsert enrichField_def upsert_triv)
qed

lemma distinct_upsertRecordNode:
  "distinct (map fst rs) \<Longrightarrow> distinct (map fst (upsertRecordNode r rs))"
  by (simp add: upsertRecordNode_def distinct_upsert split: option.split)

lemma ensureEdge_fields:
  "records (ensureEdge e g) = records g" "events (ensureEdge e g) = events g"
  "cases (ensureEdge e g) = cases g" "nextEventId (ensureEdge e g) = nextEventId g"
  "set (edges (ensureEdge e g)) = insert e (set (edges g))"
  by (simp_all add: ensureEdge_def)

lemma ensureEdge_triv: "e \<in> set (edges g) \<Longrightarrow> ensureEdge e g = g"
  by (simp add: ensureEdge_def)

lemma distinct_ensureEdge: "distinct (edges g) \<Longrightarrow> distinct (edges (ensureEdge e g))"
  by (simp add: ensureEdge_def)

lemma fold_ensureEdge_fields:
  "records (fold (\<lambda>p. ensureEdge (f p)) ps g) = records g"
  "events (fold (\<lambda>p. ensureEdge (f p)) ps g) = events g"
  "cases (fold (\<lambda>p. ensureEdge (f p)) ps g) = cases g"
  "nextEventId (fold (\<lambda>p. ensureEdge (f p)) ps g) = nextEventId g"
  "set (edges (fold (\<lambda>p. ensureEdge (f p)) ps g)) = f ` set ps \<union> set (edges g)"
  "distinct (edges g) \<Longrightarrow> distinct (edges (fold (\<lambda>p. ensureEdge (f p)) ps g))"
  by (induction ps arbitrary: g) (auto simp: ensureEdge_fields distinct_ensureEdge)

lemma fold_ensureEdge_triv:
  "f ` set ps \<subseteq> set (edges g) \<Longrightarrow> fold (\<lambda>p. ensureEdge (f p)) ps g = g"
  by (induction ps arbitrary: g) (auto simp: ensureEdge_triv)

lemma upsertRecord_fields:
  "records (upsertRecord r g) = upsertRecordNode r (records g)"
  "events (upsertRecord r g) = events g" "edges (upsertRecord r g) = edges g"
  "cases (upsertRecord r g) = cases g" "nextEventId (upsertRecord r g) = nextEventId g"
  by (simp_all add: upsertRecord_def)

lemma upsertRecord_stable:
  "records h = upsertRecordNode r rs \<Longrightarrow> upsertRecord r h = h"
  by (simp add: upsertRecord_def upsertRecordNode_idem)

lemma upsertParticipants_fields:
  "records (upsertParticipants r g) = records g"
  "events (upsertParticipants r g) = events g"
  "cases (upsertParticipants r g) = cases g"
  "nextEventId (upsertParticipants r g) = nextEventId g"
  "set (edges (upsertParticipants r g)) =
     participantEdge (naturalKey r) ` set (participants r) \<union> set (edges g)"
  "distinct (edges g) \<Longrightarrow> distinct (edges (upsertParticipants r g))"
  unfolding upsertParticipants_def by (simp_all add: fold_ensureEdge_fields)

lemma upsertParticipants_stable:
  "participantEdge (naturalKey r) ` set (participants r) \<subseteq> set (edges h)
     \<Longrightarrow> upsertParticipants r h = h"
  unfolding upsertParticipants_def by (rule fold_ensureEdge_triv)

lemma upsertEvent_fields:
  "records (upsertEvent P r ex c g) = records g"
  "cases (upsertEvent P r ex c g) = cases g"
  "set (edges g) \<subseteq> set (edges (upsertEvent P r ex c g))"
  by (auto simp: upsertEvent_def ensureEdge_def split: option.split)

lemma upsertEvent_lookup:
  "\<exists>ev. map_of (events (upsertEvent P r ex c g)) (naturalKey r, c) = Some ev
        \<and> (lifecycleStatus ev = Draft \<longrightarrow>
              description ev = describe P r ex \<and> suggestedDuration ev = estimate P r ex)"
  by (auto simp: upsertEvent_def ensureEdge_def map_of_upsert split: option.split)

lemma upsertEvent_stable:
  assumes "map_of (events h) (naturalKey r, c) = Some ev"
    and "lifecycleStatus ev = Draft \<longrightarrow>
              description ev = describe P r ex \<and> suggestedDuration ev = estimate P r ex"
  shows "upsertEvent P r ex c h = h"
proof (cases "lifecycleStatus ev = Draft")
  case False
  with assms(1) show ?thesis by (simp add: upsertEvent_def)
next
  case True
  with assms(2) have "ev\<lparr>description := describe P r ex, suggestedDuration := estimate P r ex\<rparr> = ev"
    by simp
  with True assms(1) show ?thesis
    by (simp add: upsertEvent_def upsert_triv)
qed

lemma verifyForCase_fields:
  assumes "verifyForCase k c g = Inr g'"
  shows "records g' = records g" "events g' = events g" "cases g' = cases g"
    "nextEventId g' = nextEventId g" "set (edges g) \<subseteq> set (edges g')"
  using assms
  by (auto simp: verifyForCase_def ensureEdge_def split: option.splits if_splits)

lemma forCaseTargets_Nil:
  "forCaseTargets i g = [] \<Longrightarrow> (EventNode i, FOR_CASE, t) \<notin> set (edges g)"
  by (auto simp: forCaseTargets_def filter_empty_conv)

lemma verifyForCase_stable:
  assumes "verifyForCase k c g = Inr g'"
  shows "verifyForCase k c g' = Inr g'"
proof (cases "map_of (events g) (k, c)")
  case None
  with assms show ?thesis by (simp add: verifyForCase_def)
next
  case (Some ev)
  show ?thesis
  proof (cases "forCaseTargets (eventId ev) g = []")
    case True
    with Some assms have g': "g' = ensureEdge (EventNode (eventId ev), FOR_CASE, CaseNode c) g"
      by (simp add: verifyForCase_def)
    from True have "(EventNode (eventId ev), FOR_CASE, CaseNode c) \<notin> set (edges g)"
      by (rule forCaseTargets_Nil)
    then have "forCaseTargets (eventId ev) g' = CaseNode c # forCaseTargets (eventId ev) g"
      by (simp add: g' forCaseTargets_def ensureEdge_def)
    with True Some show ?thesis
      by (simp add: verifyForCase_def g' ensureEdge_fields)
  next
    case False
    with Some assms have "g' = g"
      by (simp add: verifyForCase_def split: if_splits)
    with assms show ?thesis by simp
  qed
qed

lemma merge_idem:
  assumes "merge P r x caseRef g = Inr g'"
  shows "merge P r x caseRef g' = Inr g'"
proof -
  let ?k = "naturalKey r"
  let ?g1 = "upsertRecord r g"
  let ?g2 = "upsertParticipants r ?g1"
  have rec2: "records ?g2 = upsertRecordNode r (records g)"
    by (simp add: upsertParticipants_fields upsertRecord_fields)
  have edg2: "participantEdge ?k ` set (participants r) \<subseteq> set (edges ?g2)"
    by (simp add: upsertParticipants_fields)
  show ?thesis
  proof (cases caseRef)
    case None
    with assms have g': "g' = ?g2" by (simp add: merge_def Let_def)
    have "upsertRecord r g' = g'" using rec2 unfolding g' by (rule upsertRecord_stable)
    moreover have "upsertParticipants r g' = g'"
      using edg2 unfolding g' by (rule upsertParticipants_stable)
    ultimately show ?thesis using None by (simp add: merge_def Let_def)
  next
    case (Some c)
    let ?rel = "(RecordNode ?k, RELATES_TO, CaseNode c)"
    let ?g3 = "ensureEdge ?rel ?g2"
    let ?g4 = "case x of None \<Rightarrow> ?g3
               | Some ex \<Rightarrow> if billingSignal P x then upsertEvent P r ex c ?g3 else ?g3"
    from assms Some have c: "c \<in> set (cases ?g2)"
      by (simp add: merge_def Let_def split: if_splits)
    with assms Some have v: "verifyForCase ?k c ?g4 = Inr g'"
      by (simp add: merge_def Let_def)
    have rec4: "records ?g4 = records ?g2"
      by (simp add: ensureEdge_fields upsertEvent_fields split: option.split)
    have cas4: "cases ?g4 = cases ?g2"
      by (simp add: ensureEdge_fields upsertEvent_fields split: option.split)
    have edg4: "set (edges ?g3) \<subseteq> set (edges ?g4)"
      using upsertEvent_fields(3) by (auto split: option.split)
    note f = verifyForCase_fields [OF v]
    have s1: "upsertRecord r g' = g'"
      using f(1) rec4 rec2 upsertRecord_stable [of g' r "records g"] by simp
    have "participantEdge ?k ` set (participants r) \<subseteq> set (edges g')"
      using edg2 edg4 f(5) by (auto simp: ensureEdge_fields)
    then have s2: "upsertParticipants r g' = g'" by (rule upsertParticipants_stable)
    have s3c: "c \<in> set (cases g')" using c f(3) cas4 by simp
    have "?rel \<in> set (edges g')"
      using edg4 f(5) by (auto simp: ensureEdge_fields)
    then have s3: "ensureEdge ?rel g' = g'" by (rule ensureEdge_triv)
    have s4: "(case x of None \<Rightarrow> g'
               | Some ex \<Rightarrow> if billingSignal P x then upsertEvent P r ex c g' else g') = g'"
    proof (cases x)
      case None
      then show ?thesis by simp
    next
      case (Some ex)
      show ?thesis
      proof (cases "billingSignal P x")
        case False
        with Some show ?thesis by simp
      next
        case True
        with Some have "events g' = events (upsertEvent P r ex c ?g3)"
          using f(2) by simp
        moreover from upsertEvent_lookup [of P r ex c ?g3] obtain ev where
          "map_of (events (upsertEvent P r ex c ?g3)) (?k, c) = Some ev"
          "lifecycleStatus ev = Draft \<longrightarrow>
              description ev = describe P r ex \<and> suggestedDuration ev = estimate P r ex"
          by blast
        ultimately have "upsertEvent P r ex c g' = g'"
          using upsertEvent_stable [of g' r c ev P ex] by simp
        with Some True show ?thesis by simp
      qed
    qed
    have s5: "verifyForCase ?k c g' = Inr g'"
      using v by (rule verifyForCase_stable)
    show ?thesis
      using Some s3c by (simp add: merge_def Let_def s1 s2 s3 s4 s5)
  qed
qed

lemma afterMerge_idem:
  "afterMerge P r x caseRef (afterMerge P r x caseRef g) = afterMerge P r x caseRef g"
proof (cases "merge P r x caseRef g")
  case (Inl e)
  then show ?thesis by (simp add: afterMerge_def)
next
  case (Inr g')
  then show ?thesis using merge_idem [OF Inr] by (simp add: afterMerge_def)
qed

lemma mergeTimes_Suc:
  "mergeTimes (Suc n) P r x caseRef g = afterMerge P r x caseRef g"
  by (induction n) (simp_all add: afterMerge_idem)

lemma upsert_absent: "map_of al k = None \<Longrightarrow> upsert k v al = al @ [(k, v)]"
  by (induction al) (auto split: if_splits)

lemma map_snd_upsert_present:
  "map_of al k = Some w \<Longrightarrow> f v = f w
     \<Longrightarrow> map (\<lambda>e. f (snd e)) (upsert k v al) = map (\<lambda>e. f (snd e)) al"
  by (induction al) (auto split: if_splits)

lemma noDup_upsertRecord: "noDuplicates g \<Longrightarrow> noDuplicates (upsertRecord r g)"
  by (simp add: noDuplicates_def upsertRecord_fields distinct_upsertRecordNode)

lemma noDup_upsertParticipants: "noDuplicates g \<Longrightarrow> noDuplicates (upsertParticipants r g)"
  by (simp add: noDuplicates_def upsertParticipants_fields)

lemma noDup_ensureEdge: "noDuplicates g \<Longrightarrow> noDuplicates (ensureEdge e g)"
  by (simp add: noDuplicates_def ensureEdge_def)

lemma noDup_upsertEvent:
  assumes "noDuplicates g"
  shows "noDuplicates (upsertEvent P r ex c g)"
proof (cases "map_of (events g) (naturalKey r, c)")
  case None
  let ?ev = "\<lparr>eventId = nextEventId g, description = describe P r ex,
                   eventTimestamp = recTimestamp r, suggestedDuration = estimate P r ex,
                   lifecycleStatus = Draft, sourceType = recKind r\<rparr>"
  have u: "upsert (naturalKey r, c) ?ev (events g) = events g @ [((naturalKey r, c), ?ev)]"
    using None by (rule upsert_absent)
  from None have k: "(naturalKey r, c) \<notin> set (map fst (events g))"
    by (simp add: map_of_eq_None_iff)
  from assms have b: "\<forall>e \<in> set (events g). eventId (snd e) < nextEventId g"
    by (simp add: noDuplicates_def list_all_iff)
  then have n: "nextEventId g \<notin> (\<lambda>e. eventId (snd e)) ` set (events g)"
    by auto
  show ?thesis
    using assms None k b n
    by (auto simp: noDuplicates_def upsertEvent_def ensureEdge_def u list_all_iff less_Suc_eq)
next
  case (Some ev)
  show ?thesis
  proof (cases "lifecycleStatus ev = Draft")
    case False
    with Some assms show ?thesis by (simp add: upsertEvent_def)
  next
    case True
    let ?ev = "ev\<lparr>description := describe P r ex, suggestedDuration := estimate P r ex\<rparr>"
    have k: "map fst (upsert (naturalKey r, c) ?ev (events g)) = map fst (events g)"
      using Some by (rule map_fst_upsert_present)
    have i: "map (\<lambda>e. eventId (snd e)) (upsert (naturalKey r, c) ?ev (events g))
               = map (\<lambda>e. eventId (snd e)) (events g)"
      using Some by (rule map_snd_upsert_present) simp
    from assms have "list_all (\<lambda>i. i < nextEventId g) (map (\<lambda>e. eventId (snd e)) (events g))"
      by (simp add: noDuplicates_def list_all_iff)
    then have "list_all (\<lambda>i. i < nextEventId g)
                 (map (\<lambda>e. eventId (snd e)) (upsert (naturalKey r, c) ?ev (events g)))"
      by (simp only: i)
    then have b: "list_all (\<lambda>e. eventId (snd e) < nextEventId g)
                    (upsert (naturalKey r, c) ?ev (events g))"
      by (simp add: list_all_iff)
    show ?thesis
      using assms Some True k i b by (simp add: noDuplicates_def upsertEvent_def)
  qed
qed

lemma noDup_verifyForCase:
  "noDuplicates g \<Longrightarrow> verifyForCase k c g = Inr g' \<Longrightarrow> noDuplicates g'"
  by (auto simp: verifyForCase_def noDup_ensureEdge split: option.splits if_splits)

lemma noDup_merge:
  assumes "noDuplicates g" and "merge P r x caseRef g = Inr g'"
  shows "noDuplicates g'"
proof -
  let ?g2 = "upsertParticipants r (upsertRecord r g)"
  have n2: "noDuplicates ?g2"
    using assms(1) by (simp add: noDup_upsertRecord noDup_upsertParticipants)
  show ?thesis
  proof (cases caseRef)
    case None
    with assms(2) n2 show ?thesis by (simp add: merge_def Let_def)
  next
    case (Some c)
    let ?g3 = "ensureEdge (RecordNode (naturalKey r), RELATES_TO, CaseNode c) ?g2"
    let ?g4 = "case x of None \<Rightarrow> ?g3
               | Some ex \<Rightarrow> if billingSignal P x then upsertEvent P r ex c ?g3 else ?g3"
    have "noDuplicates ?g3" using n2 by (rule noDup_ensureEdge)
    then have n4: "noDuplicates ?g4"
      by (simp add: noDup_upsertEvent split: option.split)
    from assms(2) Some have "verifyForCase (naturalKey r) c ?g4 = Inr g'"
      by (simp add: merge_def Let_def split: if_splits)
    with n4 show ?thesis by (rule noDup_verifyForCase)
  qed
qed

lemma noDup_afterMerge: "noDuplicates g \<Longrightarrow> noDuplicates (afterMerge P r x caseRef g)"
  by (cases "merge P r x caseRef g") (simp_all add: afterMerge_def noDup_merge)

text \<open>
  Claim C1. Calling \<open>merge\<close> any number of times, at least once, with the same record,
  extraction and case leaves the graph in the state that one call leaves it in: a call
  that succeeded succeeds again and changes nothing, and a graph without duplicate
  nodes or edges stays without them.
\<close>

theorem merge_idempotent:
  "mergeTimes (Suc n) P r x caseRef g = mergeTimes 1 P r x caseRef g
   \<and> (\<forall>g'. merge P r x caseRef g = Inr g' \<longrightarrow> merge P r x caseRef g' = Inr g')
   \<and> (noDuplicates g \<longrightarrow> noDuplicates (mergeTimes (Suc n) P r x caseRef g))"
proof (intro conjI allI impI)
  show "mergeTimes (Suc n) P r x caseRef g = mergeTimes 1 P r x caseRef g"
    by (simp only: One_nat_def mergeTimes_Suc)
next
  fix g' assume "merge P r x caseRef g = Inr g'"
  then show "merge P r x caseRef g' = Inr g'" by (rule merge_idem)
next
  assume "noDuplicates g"
  then show "noDuplicates (mergeTimes (Suc n) P r x caseRef g)"
    by (simp only: mergeTimes_Suc noDup_afterMerge)
qed

theorem merge_idempotent_witness:
  "merge scenarioPolicy scenarioRecord (Some scenarioExtraction) (Some ''CV-2025-123'') caseGraph
     = Inr mergedGraph
   \<and> merge scenarioPolicy scenarioRecord (Some scenarioExtraction) (Some ''CV-2025-123'') mergedGraph
     = Inr mergedGraph
   \<and> mergeTimes 3 scenarioPolicy scenarioRecord (Some scenarioExtraction) (Some ''CV-2025-123'') caseGraph
     = mergedGraph
   \<and> noDuplicates caseGraph
   \<and> noDuplicates (mergeTimes 3 scenarioPolicy scenarioRecord (Some scenarioExtraction)
         (Some ''CV-2025-123'') caseGraph)"
proof -
  note t = merge_idempotent [of 2 scenarioPolicy scenarioRecord "Some scenarioExtraction"
             "Some ''CV-2025-123''" caseGraph]
  have a: "merge scenarioPolicy scenarioRecord (Some scenarioExtraction) (Some ''CV-2025-123'') caseGraph
     = Inr mergedGraph"
    by code_simp
  have b: "merge scenarioPolicy scenarioRecord (Some scenarioExtraction) (Some ''CV-2025-123'') mergedGraph
     = Inr mergedGraph"
    using t [THEN conjunct2, THEN conjunct1, rule_format, OF a] .
  have three: "Suc 2 = 3" by simp
  have c: "mergeTimes 3 scenarioPolicy scenarioRecord (Some scenarioExtraction) (Some ''CV-2025-123'') caseGraph
     = mergedGraph"
    using t [THEN conjunct1] a by (simp add: three afterMerge_def)
  have d: "noDuplicates caseGraph" by code_simp
  have e: "noDuplicates (mergeTimes 3 scenarioPolicy scenarioRecord (Some scenarioExtraction)
         (Some ''CV-2025-123'') caseGraph)"
    using t [THEN conjunct2, THEN conjunct2, rule_format, OF d] by (simp only: three)
  show ?thesis using a b c d e by simp
qed

end
